theory Spec2Isabelle
  imports Complex_Main "HOL-Library.List_Lexorder" "HOL-Library.Product_Lexorder"
begin

section \<open>Text, bytes and dictionaries\<close>

text \<open>
  A Python \<open>str\<close> is a sequence of Unicode code points, a \<open>bytes\<close> object a sequence of
  octets. A \<open>dict\<close> keeps its keys in insertion order; assigning to a key that is already
  present replaces the value and keeps the key's position.
\<close>

type_synonym str = "nat list"
type_synonym bytes = "char list"
type_synonym dict = "(str \<times> str) list"

definition lit :: "string \<Rightarrow> str" where
  \<comment> \<open>The text of an ASCII literal; also \<open>.decode()\<close> of an ASCII \<open>bytes\<close> constant.\<close>
  "lit cs = map of_char cs"

fun dict_set :: "dict \<Rightarrow> str \<Rightarrow> str \<Rightarrow> dict" where
  \<comment> \<open>\<open>d[k] = v\<close>\<close>
  "dict_set [] k v = [(k, v)]"
| "dict_set ((k', v') # d) k v =
     (if k' = k then (k', v) # d else (k', v') # dict_set d k v)"

definition is_space :: "nat \<Rightarrow> bool" where
  \<comment> \<open>The code points \<open>str.strip()\<close> removes (\<open>str.isspace\<close>).\<close>
  "is_space c =
     ((9 \<le> c \<and> c \<le> 13) \<or> (28 \<le> c \<and> c \<le> 32) \<or> c = 133 \<or> c = 160 \<or> c = 5760 \<or>
      (8192 \<le> c \<and> c \<le> 8202) \<or> c = 8232 \<or> c = 8233 \<or> c = 8239 \<or> c = 8287 \<or> c = 12288)"

definition is_linebreak :: "nat \<Rightarrow> bool" where
  \<comment> \<open>The line boundaries of \<open>str.splitlines()\<close>; CR LF counts as one.\<close>
  "is_linebreak c =
     ((10 \<le> c \<and> c \<le> 13) \<or> (28 \<le> c \<and> c \<le> 30) \<or> c = 133 \<or> c = 8232 \<or> c = 8233)"

definition strip :: "str \<Rightarrow> str" where
  "strip s = rev (dropWhile is_space (rev (dropWhile is_space s)))"

fun splitlines_from :: "str \<Rightarrow> str \<Rightarrow> str list" where
  "splitlines_from cur [] = (if cur = [] then [] else [cur])"
| "splitlines_from cur (c # cs) =
     (if c = 13 \<and> cs \<noteq> [] \<and> hd cs = 10 then cur # splitlines_from [] (tl cs)
      else if is_linebreak c then cur # splitlines_from [] cs
      else splitlines_from (cur @ [c]) cs)"

definition splitlines :: "str \<Rightarrow> str list" where
  "splitlines s = splitlines_from [] s"

definition has_eq :: "str \<Rightarrow> bool" where
  \<comment> \<open>\<open>"=" in line\<close>\<close>
  "has_eq line = (61 \<in> set line)"

definition split_eq :: "str \<Rightarrow> str \<times> str" where
  \<comment> \<open>\<open>line.split("=", 1)\<close> for a line that contains \<open>=\<close>: the text before the first
      \<open>=\<close> and the text after it.\<close>
  "split_eq line = (takeWhile (\<lambda>c. c \<noteq> 61) line, tl (dropWhile (\<lambda>c. c \<noteq> 61) line))"

fun starts_with :: "'a list \<Rightarrow> 'a list \<Rightarrow> bool" where
  "starts_with xs [] = True"
| "starts_with [] (p # ps) = False"
| "starts_with (x # xs) (p # ps) = (x = p \<and> starts_with xs ps)"

fun bytes_in :: "'a list \<Rightarrow> 'a list \<Rightarrow> bool" where
  \<comment> \<open>\<open>pat in data\<close> on byte strings: \<open>pat\<close> occurs as a contiguous run.\<close>
  "bytes_in pat [] = (pat = [])"
| "bytes_in pat (x # xs) = (starts_with (x # xs) pat \<or> bytes_in pat xs)"

section \<open>The frame\<close>

definition QUBESDB_HEADER :: bytes where
  "QUBESDB_HEADER = ''QUBESDB-KVM-CONFIG'' @ [CHR 0x0A]"

definition QUBESDB_FOOTER :: bytes where
  "QUBESDB_FOOTER = CHR 0x0A # ''QUBESDB-END'' @ [CHR 0x0A]"

definition inject_payload :: "dict \<Rightarrow> str" where
  \<comment> \<open>qubesdb-config-inject.py, \<open>inject\<close>, lines 23-26: the frame text that is sent.\<close>
  "inject_payload entries =
     foldl (\<lambda>payload (k, v). payload @ k @ [61] @ v @ [10]) (lit QUBESDB_HEADER) entries
       @ lit QUBESDB_FOOTER"

definition parse_line :: "dict \<Rightarrow> str \<Rightarrow> dict" where
  \<comment> \<open>qubesdb-config-read.py, lines 55-60: the body of the loop over the lines.\<close>
  "parse_line entries raw =
     (let line = strip raw in
      if line = lit ''QUBESDB-KVM-CONFIG'' \<or> line = lit ''QUBESDB-END'' \<or> line = [] then entries
      else if has_eq line then (case split_eq line of (k, v) \<Rightarrow> dict_set entries k v)
      else entries)"

definition parse_text :: "str \<Rightarrow> dict" where
  \<comment> \<open>qubesdb-config-read.py, lines 54-60, on the decoded text.\<close>
  "parse_text txt = foldl parse_line [] (splitlines txt)"

section \<open>Errors, messages and outcomes\<close>

datatype py_error =
    IOError str                \<comment> \<open>\<open>IOError\<close>/\<open>OSError\<close> from the port, with its text\<close>
  | IsADirectoryError str      \<comment> \<open>\<open>open(path, "w")\<close> on a directory; the file name\<close>
  | FileNameTooLong str        \<comment> \<open>\<open>OSError\<close> ENAMETOOLONG; the file name\<close>
  | EmbeddedNullByte str       \<comment> \<open>\<open>ValueError\<close> of \<open>open\<close>; the file name\<close>
  | JSONDecodeError
  | UnicodeEncodeError         \<comment> \<open>\<open>str.encode()\<close> or \<open>print\<close> on a lone surrogate\<close>
  | UnicodeDecodeError         \<comment> \<open>\<open>bytes.decode()\<close> on bytes that are not UTF-8\<close>
  | SubprocessOSError str      \<comment> \<open>\<open>OSError\<close> of \<open>subprocess.run\<close>, with its text\<close>
  | SocketOSError str          \<comment> \<open>\<open>OSError\<close> of \<open>socket.socket\<close>, with its text\<close>

text \<open>One constructor per \<open>print\<close> call of the two scripts, holding the formatted values.\<close>

datatype msg =
    Waiting                    \<comment> \<open>read, line 29\<close>
  | NotFoundAfter int          \<comment> \<open>read, line 35\<close>
  | ReadingPort                \<comment> \<open>read, line 38\<close>
  | ErrorReading str           \<comment> \<open>read, line 62\<close>
  | CachedEntries nat          \<comment> \<open>read, line 71\<close>
  | PrintValue str             \<comment> \<open>read, line 95\<close>
  | KeyNotFound str            \<comment> \<open>read, line 97\<close>
  | PrintEntry str str         \<comment> \<open>read, line 104\<close>
  | PrintJson dict             \<comment> \<open>read, line 109\<close>
  | EntriesLoaded nat          \<comment> \<open>read, line 115\<close>
  | EntryLine str str          \<comment> \<open>read, line 117\<close>
  | UsingCached nat            \<comment> \<open>read, line 121\<close>
  | WarnNoConfig               \<comment> \<open>read, line 123\<close>
  | Injected nat str           \<comment> \<open>inject, lines 41 and 54\<close>
  | SocatError str             \<comment> \<open>inject, line 43\<close>
  | TimeoutNotReading str      \<comment> \<open>inject, lines 46 and 57\<close>
  | ErrorMsg str               \<comment> \<open>inject, line 60\<close>
  | Usage                      \<comment> \<open>inject, line 68\<close>
  | UsingDefaults              \<comment> \<open>inject, line 103\<close>

datatype outcome =
    Returned                   \<comment> \<open>\<open>main\<close> returns\<close>
  | SysExit int                \<comment> \<open>\<open>sys.exit(n)\<close>\<close>
  | Uncaught py_error          \<comment> \<open>an exception leaves \<open>main\<close>: traceback\<close>

fun exit_status :: "outcome \<Rightarrow> int" where
  "exit_status Returned = 0"
| "exit_status (SysExit n) = n"
| "exit_status (Uncaught e) = 1"

fun aborted :: "outcome \<Rightarrow> bool" where
  "aborted (Uncaught e) = True"
| "aborted out = False"

section \<open>The receiver: qubesdb-config-read.py\<close>

subsection \<open>The port\<close>

text \<open>
  What the guest's environment answers during one call of \<open>read_from_virtio\<close>: the result
  of the i-th \<open>os.path.exists(VIRTIO_PORT)\<close>, whether \<open>open\<close> raises, the clock at line 43,
  and for each iteration of the read loop the clock at line 44 followed by the result of
  \<open>f.read(4096)\<close> at line 45 (the read of an iteration whose clock is past the deadline is
  never made).
\<close>

datatype read_result = Chunk bytes | ReadFails str

record port_env =
  port_exists :: "nat \<Rightarrow> bool"
  port_open_error :: "str option"
  clock_start :: real
  port_polls :: "(real \<times> read_result) list"

function wait_loop :: "(nat \<Rightarrow> bool) \<Rightarrow> int \<Rightarrow> nat \<Rightarrow> int \<Rightarrow> nat \<times> int" where
  \<comment> \<open>Lines 31-33; \<open>i\<close> numbers the next \<open>os.path.exists\<close> call, each round sleeps one
      second. Returns the number of the call after the loop and \<open>waited\<close>.\<close>
  "wait_loop ex timeout i waited =
     (if \<not> ex i \<and> waited < timeout then wait_loop ex timeout (Suc i) (waited + 1)
      else (Suc i, waited))"
  by pat_completeness auto
termination
  by (relation "measure (\<lambda>(ex, timeout, i, waited). nat (timeout - waited))") auto

declare wait_loop.simps [simp del]

fun read_loop :: "real \<Rightarrow> (real \<times> read_result) list \<Rightarrow> bytes \<Rightarrow> (str + bytes) option" where
  \<comment> \<open>Lines 44-51. \<open>None\<close>: the loop is still running when the observations end.
      \<open>Inl\<close>: \<open>f.read\<close> raised.\<close>
  "read_loop deadline [] data = None"
| "read_loop deadline ((now, r) # rest) data =
     (if now < deadline then
        (case r of
           ReadFails e \<Rightarrow> Some (Inl e)
         | Chunk chunk \<Rightarrow>
             if chunk \<noteq> [] then
               (let data' = data @ chunk in
                if bytes_in QUBESDB_FOOTER data' then Some (Inr data')
                else read_loop deadline rest data')
             else read_loop deadline rest data)
      else Some (Inr data))"

definition read_open :: "(bytes \<Rightarrow> str) \<Rightarrow> int \<Rightarrow> port_env \<Rightarrow> (dict \<times> msg list) option" where
  \<comment> \<open>Lines 38-64, the read phase. \<open>decode\<close> is \<open>data.decode("utf-8", errors="replace")\<close>.\<close>
  "read_open decode timeout env =
     (case port_open_error env of
        Some e \<Rightarrow> Some ([], [ReadingPort, ErrorReading e])
      | None \<Rightarrow>
          (case read_loop (clock_start env + of_int timeout) (port_polls env) [] of
             None \<Rightarrow> None
           | Some (Inl e) \<Rightarrow> Some ([], [ReadingPort, ErrorReading e])
           | Some (Inr data) \<Rightarrow> Some (parse_text (decode data), [ReadingPort])))"

definition wait_for_port :: "(nat \<Rightarrow> bool) \<Rightarrow> int \<Rightarrow> bool \<times> msg list \<times> int" where
  \<comment> \<open>Lines 28-36, the wait phase: whether the port was found, what was printed, and
      \<open>waited\<close>, the number of one-second sleeps made.\<close>
  "wait_for_port ex timeout =
     (if \<not> ex 0 then
        (case wait_loop ex timeout 1 0 of
           (i, waited) \<Rightarrow>
             if \<not> ex i then (False, [Waiting, NotFoundAfter timeout], waited)
             else (True, [Waiting], waited))
      else (True, [], 0))"

definition read_from_virtio ::
  "(bytes \<Rightarrow> str) \<Rightarrow> int \<Rightarrow> port_env \<Rightarrow> (dict \<times> msg list \<times> int) option" where
  \<comment> \<open>Lines 26-64. Returns the entries, what was printed, and \<open>waited\<close>.\<close>
  "read_from_virtio decode timeout env =
     (case wait_for_port (port_exists env) timeout of
        (found, msgs, waited) \<Rightarrow>
          if \<not> found then Some ([], msgs, waited)
          else map_option (\<lambda>(entries, msgs'). (entries, msgs @ msgs', waited))
                 (read_open decode timeout env))"

text \<open>
  \<open>data.decode("utf-8", errors="replace")\<close>: a well-formed sequence of one to four bytes
  gives its code point; at an ill-formed place the longest run of bytes that could still
  begin a well-formed sequence (one byte at least) gives one U+FFFD, and decoding goes on
  after that run; a sequence cut off by the end of the data gives one U+FFFD.
\<close>

definition is_cont :: "nat \<Rightarrow> bool" where
  \<comment> \<open>A continuation byte, 0x80 to 0xBF.\<close>
  "is_cont b = (128 \<le> b \<and> b \<le> 191)"

definition second_ok :: "nat \<Rightarrow> nat \<Rightarrow> bool" where
  \<comment> \<open>The second byte of a sequence of three or four bytes: no overlong form after 0xE0 or
      0xF0, no surrogate after 0xED, nothing above U+10FFFF after 0xF4.\<close>
  "second_ok b0 b1 =
     (is_cont b1 \<and> \<not> (b0 = 224 \<and> b1 < 160) \<and> \<not> (b0 = 237 \<and> 160 \<le> b1) \<and>
      \<not> (b0 = 240 \<and> b1 < 144) \<and> \<not> (b0 = 244 \<and> 144 \<le> b1))"

fun utf8_replace :: "nat list \<Rightarrow> str" where
  "utf8_replace [] = []"
| "utf8_replace (b0 # rest) =
     (if b0 < 128 then b0 # utf8_replace rest
      else if b0 < 194 then 65533 # utf8_replace rest
      else if b0 < 224 then
        (case rest of
           [] \<Rightarrow> [65533]
         | b1 # r1 \<Rightarrow>
             if is_cont b1 then ((b0 - 192) * 64 + (b1 - 128)) # utf8_replace r1
             else 65533 # utf8_replace rest)
      else if b0 < 240 then
        (case rest of
           [] \<Rightarrow> [65533]
         | b1 # r1 \<Rightarrow>
             if \<not> second_ok b0 b1 then 65533 # utf8_replace rest
             else
               (case r1 of
                  [] \<Rightarrow> [65533]
                | b2 # r2 \<Rightarrow>
                    if is_cont b2
                    then ((b0 - 224) * 4096 + (b1 - 128) * 64 + (b2 - 128)) # utf8_replace r2
                    else 65533 # utf8_replace r1))
      else if b0 < 245 then
        (case rest of
           [] \<Rightarrow> [65533]
         | b1 # r1 \<Rightarrow>
             if \<not> second_ok b0 b1 then 65533 # utf8_replace rest
             else
               (case r1 of
                  [] \<Rightarrow> [65533]
                | b2 # r2 \<Rightarrow>
                    if \<not> is_cont b2 then 65533 # utf8_replace r1
                    else
                      (case r2 of
                         [] \<Rightarrow> [65533]
                       | b3 # r3 \<Rightarrow>
                           if is_cont b3
                           then ((b0 - 240) * 262144 + (b1 - 128) * 4096 + (b2 - 128) * 64
                                   + (b3 - 128)) # utf8_replace r3
                           else 65533 # utf8_replace r2)))
      else 65533 # utf8_replace rest)"

definition utf8_decode :: "bytes \<Rightarrow> str" where
  "utf8_decode data = utf8_replace (map of_char data)"

subsection \<open>The cache\<close>

text \<open>
  \<open>CACHE_FILE\<close> is absent or holds a document; \<open>json.dump\<close> followed by \<open>json.load\<close>
  gives back a dictionary of strings, so a document written by \<open>save_cache\<close> is kept as
  the dictionary it denotes. The files of \<open>CACHE_DIR/entries\<close> are a map from file name
  to content. The directories can be created and the files are UTF-8 text; nothing else
  writes to the cache while the script runs.
\<close>

datatype cache_doc = JsonObject dict | NotJson

record cache_fs =
  aggregate :: "cache_doc option"
  key_files :: "str \<rightharpoonup> str"

definition safe_key :: "str \<Rightarrow> str" where
  \<comment> \<open>Line 76: \<open>k.lstrip("/").replace("/", "_")\<close>\<close>
  "safe_key k = map (\<lambda>c. if c = 47 then 95 else c) (dropWhile (\<lambda>c. c = 47) k)"

definition utf8_len :: "nat \<Rightarrow> nat" where
  "utf8_len c = (if c < 128 then 1 else if c < 2048 then 2 else if c < 65536 then 3 else 4)"

definition open_for_write :: "str \<Rightarrow> py_error option" where
  \<comment> \<open>Line 77, \<open>open(os.path.join(qubesdb_dir, name), "w")\<close> for a name without \<open>/\<close>:
      what it raises, if anything (Linux, names of at most 255 bytes).\<close>
  "open_for_write name =
     (if 0 \<in> set name then Some (EmbeddedNullByte name)
      else if name = [] \<or> name = lit ''.'' \<or> name = lit ''..'' then Some (IsADirectoryError name)
      else if 255 < sum_list (map utf8_len name) then Some (FileNameTooLong name)
      else None)"

fun write_entries :: "dict \<Rightarrow> (str \<rightharpoonup> str) \<Rightarrow> py_error option \<times> (str \<rightharpoonup> str)" where
  \<comment> \<open>Lines 75-78.\<close>
  "write_entries [] files = (None, files)"
| "write_entries ((k, v) # rest) files =
     (case open_for_write (safe_key k) of
        Some e \<Rightarrow> (Some e, files)
      | None \<Rightarrow> write_entries rest (files(safe_key k \<mapsto> v)))"

definition save_cache :: "dict \<Rightarrow> cache_fs \<Rightarrow> py_error option \<times> cache_fs \<times> msg list" where
  \<comment> \<open>Lines 67-78. The first component is the exception that leaves the function, if any.\<close>
  "save_cache entries fs =
     (case write_entries entries (key_files fs) of
        (err, files) \<Rightarrow>
          (err, \<lparr>aggregate = Some (JsonObject entries), key_files = files\<rparr>,
           [CachedEntries (length entries)]))"

definition load_cache :: "cache_fs \<Rightarrow> py_error + dict" where
  \<comment> \<open>Lines 81-85.\<close>
  "load_cache fs =
     (case aggregate fs of
        None \<Rightarrow> Inr []
      | Some (JsonObject d) \<Rightarrow> Inr d
      | Some NotJson \<Rightarrow> Inl JSONDecodeError)"

subsection \<open>main\<close>

definition index_of :: "'a \<Rightarrow> 'a list \<Rightarrow> nat" where
  \<comment> \<open>\<open>xs.index(x)\<close> for an \<open>x\<close> that occurs in \<open>xs\<close>\<close>
  "index_of x xs = length (takeWhile (\<lambda>y. y \<noteq> x) xs)"

definition query_mode :: "str list \<Rightarrow> bool" where
  "query_mode argv =
     (lit ''--get'' \<in> set argv \<or> lit ''--list'' \<in> set argv \<or> lit ''--json'' \<in> set argv)"

definition fallback :: "cache_fs \<Rightarrow> outcome \<times> msg list" where
  \<comment> \<open>Lines 119-123.\<close>
  "fallback fs =
     (case load_cache fs of
        Inl e \<Rightarrow> (Uncaught e, [])
      | Inr cached \<Rightarrow>
          if cached \<noteq> [] then (Returned, [UsingCached (length cached)])
          else (Returned, [WarnNoConfig]))"

definition read_main ::
  "(bytes \<Rightarrow> str) \<Rightarrow> str list \<Rightarrow> port_env \<Rightarrow> cache_fs \<Rightarrow> (outcome \<times> cache_fs \<times> msg list) option" where
  \<comment> \<open>Lines 88-124. \<open>None\<close>: still in the read loop when the observations end.\<close>
  "read_main decode argv env fs =
     (if lit ''--get'' \<in> set argv then
        (let idx = index_of (lit ''--get'') argv in
         if idx + 1 < length argv then
           (case load_cache fs of
              Inl e \<Rightarrow> Some (Uncaught e, fs, [])
            | Inr entries \<Rightarrow>
                (case map_of entries (argv ! (idx + 1)) of
                   Some v \<Rightarrow> Some (Returned, fs, [PrintValue v])
                 | None \<Rightarrow> Some (SysExit 1, fs, [KeyNotFound (argv ! (idx + 1))])))
         else Some (Returned, fs, []))
      else if lit ''--list'' \<in> set argv then
        (case load_cache fs of
           Inl e \<Rightarrow> Some (Uncaught e, fs, [])
         | Inr entries \<Rightarrow> Some (Returned, fs, map (\<lambda>(k, v). PrintEntry k v) (sort entries)))
      else if lit ''--json'' \<in> set argv then
        (case load_cache fs of
           Inl e \<Rightarrow> Some (Uncaught e, fs, [])
         | Inr entries \<Rightarrow> Some (Returned, fs, [PrintJson entries]))
      else
        (case read_from_virtio decode 30 env of
           None \<Rightarrow> None
         | Some (entries, msgs, waited) \<Rightarrow>
             if entries \<noteq> [] then
               (case save_cache entries fs of
                  (Some e, fs', msgs') \<Rightarrow> Some (Uncaught e, fs', msgs @ msgs')
                | (None, fs', msgs') \<Rightarrow>
                    Some (Returned, fs',
                      msgs @ msgs' @ [EntriesLoaded (length entries)]
                        @ map (\<lambda>(k, v). EntryLine k v) (sort entries)))
             else (case fallback fs of (out, msgs') \<Rightarrow> Some (out, fs, msgs @ msgs'))))"

section \<open>The sender: qubesdb-config-inject.py\<close>

text \<open>
  What the host answers to one delivery attempt: whether \<open>shutil.which("socat")\<close> finds the
  relay; how \<open>subprocess.run\<close> ends (the return code with the captured stderr as
  \<open>proc.stderr.decode()\<close> gives it, \<open>None\<close> when that raises; \<open>TimeoutExpired\<close>; or an
  \<open>OSError\<close> because the relay cannot be started); whether \<open>socket.socket\<close> raises; how
  \<open>connect\<close> and then \<open>sendall\<close> end (the exception carries its text); and whether
  \<open>sys.stdout\<close> refuses a lone surrogate (it does with the error handler \<open>strict\<close> of a
  UTF-8 locale, it does not in the C locale). \<open>sys.stderr\<close> never refuses a character.
  The endpoint path comes from the command line, so it holds no NUL.
\<close>

datatype socat_result = SocatExit int "str option" | SocatTimeoutExpired | SocatOSError str

datatype sock_exn =
    SocketTimeout
  | ConnectionRefusedError str
  | FileNotFoundError str
  | OtherOSError str

record net_env =
  socat_found :: bool
  socat_run :: socat_result
  socket_error :: "str option"
  sock_connect :: "sock_exn option"
  sock_sendall :: "sock_exn option"
  stdout_strict :: bool

definition encodable :: "str \<Rightarrow> bool" where
  \<comment> \<open>\<open>s.encode()\<close> returns: no code point of \<open>s\<close> is a surrogate, U+D800 to U+DFFF.\<close>
  "encodable s = list_all (\<lambda>c. \<not> (55296 \<le> c \<and> c \<le> 57343)) s"

definition sock_failed :: "str \<Rightarrow> sock_exn \<Rightarrow> (py_error + bool) \<times> msg list \<times> str option" where
  \<comment> \<open>Lines 56-61, the two \<open>except\<close> clauses of the socket path.\<close>
  "sock_failed sock_path x =
     (case x of
        SocketTimeout \<Rightarrow> (Inr False, [TimeoutNotReading sock_path], None)
      | ConnectionRefusedError e \<Rightarrow> (Inr False, [ErrorMsg e], None)
      | FileNotFoundError e \<Rightarrow> (Inr False, [ErrorMsg e], None)
      | OtherOSError e \<Rightarrow> (Inr False, [ErrorMsg e], None))"

definition report_injected ::
  "str \<Rightarrow> dict \<Rightarrow> str \<Rightarrow> net_env \<Rightarrow> (py_error + bool) \<times> msg list \<times> str option" where
  \<comment> \<open>Lines 41-42 and 54-55, after the payload went out: \<open>print\<close> to stdout, then
      \<open>return True\<close>.\<close>
  "report_injected sock_path entries payload net =
     (if stdout_strict net \<and> \<not> encodable sock_path then (Inl UnicodeEncodeError, [], Some payload)
      else (Inr True, [Injected (length entries) sock_path], Some payload))"

definition inject :: "str \<Rightarrow> dict \<Rightarrow> net_env \<Rightarrow> (py_error + bool) \<times> msg list \<times> str option" where
  \<comment> \<open>Lines 22-63. Returns the function's result (\<open>Inl\<close>: the exception that leaves it),
      what was printed, and the payload when it went out. \<open>payload.encode()\<close> is evaluated
      before the relay is run (line 36) and after \<open>connect\<close> returned (line 53).\<close>
  "inject sock_path entries net =
     (let payload = inject_payload entries in
      if socat_found net then
        (if \<not> encodable payload then (Inl UnicodeEncodeError, [], None)
         else
           (case socat_run net of
              SocatOSError e \<Rightarrow> (Inl (SubprocessOSError e), [], None)
            | SocatTimeoutExpired \<Rightarrow> (Inr False, [TimeoutNotReading sock_path], None)
            | SocatExit returncode err \<Rightarrow>
                if returncode = 0 then report_injected sock_path entries payload net
                else
                  (case err of
                     None \<Rightarrow> (Inl UnicodeDecodeError, [], None)
                   | Some e \<Rightarrow> (Inr False, [SocatError e], None))))
      else
        (case socket_error net of
           Some e \<Rightarrow> (Inl (SocketOSError e), [], None)
         | None \<Rightarrow>
             (case sock_connect net of
                Some x \<Rightarrow> sock_failed sock_path x
              | None \<Rightarrow>
                  if \<not> encodable payload then (Inl UnicodeEncodeError, [], None)
                  else
                    (case sock_sendall net of
                       Some x \<Rightarrow> sock_failed sock_path x
                     | None \<Rightarrow> report_injected sock_path entries payload net))))"

definition arg_entry :: "dict \<Rightarrow> str \<Rightarrow> dict" where
  \<comment> \<open>Lines 75-77.\<close>
  "arg_entry entries arg =
     (if has_eq arg then (case split_eq arg of (k, v) \<Rightarrow> dict_set entries k v) else entries)"

definition stdin_entry :: "dict \<Rightarrow> str \<Rightarrow> dict" where
  \<comment> \<open>Lines 81-84.\<close>
  "stdin_entry entries raw =
     (let line = strip raw in
      if has_eq line then (case split_eq line of (k, v) \<Rightarrow> dict_set entries k v) else entries)"

definition merged_entries :: "str list \<Rightarrow> bool \<Rightarrow> str list \<Rightarrow> dict" where
  \<comment> \<open>Lines 72-84: \<open>entries\<close> before the test of line 86. \<open>stdin\<close> lists the lines that
      iterating \<open>sys.stdin\<close> yields.\<close>
  "merged_entries argv isatty stdin =
     (let entries = foldl arg_entry [] (drop 2 argv) in
      if \<not> isatty then foldl stdin_entry entries stdin else entries)"

definition environ_get :: "(str \<rightharpoonup> str) \<Rightarrow> str \<Rightarrow> str \<Rightarrow> str" where
  "environ_get environ k d = (case environ k of Some v \<Rightarrow> v | None \<Rightarrow> d)"

definition default_entries :: "(str \<rightharpoonup> str) \<Rightarrow> dict" where
  \<comment> \<open>Lines 87-102.\<close>
  "default_entries environ =
     [(lit ''/name'', environ_get environ (lit ''VM_NAME'') (lit ''qubes-kvm-node1'')),
      (lit ''/type'', lit ''AppVM''),
      (lit ''/label'', lit ''green''),
      (lit ''/netvm'', lit ''sys-firewall''),
      (lit ''/memory'', environ_get environ (lit ''VM_MEM'') (lit ''4096'')),
      (lit ''/vcpus'', environ_get environ (lit ''VM_CPUS'') (lit ''2'')),
      (lit ''/qubes-vm-updateable'', lit ''False''),
      (lit ''/qubes-base-template'', lit ''fedora-41''),
      (lit ''/qubes-vm-persistence'', lit ''full''),
      (lit ''/qubes-ip'', lit ''10.137.0.100''),
      (lit ''/qubes-netmask'', lit ''255.255.255.255''),
      (lit ''/qubes-gateway'', lit ''10.137.0.1''),
      (lit ''/qubes-primary-dns'', lit ''10.139.1.1''),
      (lit ''/qubes-secondary-dns'', lit ''10.139.1.2'')]"

definition sender_entries :: "str list \<Rightarrow> bool \<Rightarrow> str list \<Rightarrow> (str \<rightharpoonup> str) \<Rightarrow> dict" where
  \<comment> \<open>Lines 72-103: the entries handed to \<open>inject\<close>.\<close>
  "sender_entries argv isatty stdin environ =
     (let entries = merged_entries argv isatty stdin in
      if entries = [] then default_entries environ else entries)"

definition inject_main ::
  "str list \<Rightarrow> bool \<Rightarrow> str list \<Rightarrow> (str \<rightharpoonup> str) \<Rightarrow> net_env \<Rightarrow> outcome \<times> msg list" where
  \<comment> \<open>Lines 66-106.\<close>
  "inject_main argv isatty stdin environ net =
     (if length argv < 2 then (SysExit 1, [Usage])
      else
        (case inject (argv ! 1) (sender_entries argv isatty stdin environ) net of
           (res, msgs, sent) \<Rightarrow>
             ((case res of Inl e \<Rightarrow> Uncaught e | Inr ok \<Rightarrow> SysExit (if ok then 0 else 1)),
              (if merged_entries argv isatty stdin = [] then [UsingDefaults] else []) @ msgs)))"

section \<open>The specification's wording\<close>

text \<open>
  The parser as the specification words it: of the lines of the text, each stripped of
  surrounding whitespace as the code does, keep those that are not blank, are not a marker
  and contain \<open>=\<close>; split each at its first \<open>=\<close>; a later pair replaces an earlier one
  with the same key.
\<close>

definition spec_kept :: "str \<Rightarrow> bool" where
  "spec_kept line =
     (line \<noteq> [] \<and> line \<noteq> lit ''QUBESDB-KVM-CONFIG'' \<and> line \<noteq> lit ''QUBESDB-END'' \<and> has_eq line)"

definition spec_split :: "str \<Rightarrow> str \<times> str" where
  "spec_split line =
     (let i = length (takeWhile (\<lambda>c. c \<noteq> 61) line) in (take i line, drop (Suc i) line))"

definition spec_parse :: "str \<Rightarrow> (str \<rightharpoonup> str)" where
  "spec_parse txt = map_of (rev (map spec_split (filter spec_kept (map strip (splitlines txt)))))"

text \<open>
  The entries of the round-trip property: key and value are not empty and the key holds
  no \<open>=\<close>. The entries that the receiver's line handling leaves as they are: no line
  boundary in key or value, no whitespace at the start of the key or at the end of the value.
\<close>

definition spec_entry :: "str \<times> str \<Rightarrow> bool" where
  "spec_entry kv = (fst kv \<noteq> [] \<and> snd kv \<noteq> [] \<and> \<not> has_eq (fst kv))"

definition line_safe :: "str \<times> str \<Rightarrow> bool" where
  "line_safe kv =
     (list_all (\<lambda>c. \<not> is_linebreak c) (fst kv @ snd kv) \<and>
      \<not> is_space (hd (fst kv)) \<and> \<not> is_space (last (snd kv)))"

definition trimmed :: "str \<times> str \<Rightarrow> bool" where
  \<comment> \<open>No whitespace at the start of the key, none at the end of the value.\<close>
  "trimmed kv =
     ((fst kv = [] \<or> \<not> is_space (hd (fst kv))) \<and> (snd kv = [] \<or> \<not> is_space (last (snd kv))))"

text \<open>
  The per-key files a dictionary asks for: under each file name the value of the last key
  with that name.
\<close>

definition per_key_view :: "dict \<Rightarrow> (str \<rightharpoonup> str)" where
  "per_key_view entries = map_of (rev (map (\<lambda>(k, v). (safe_key k, v)) entries))"

text \<open>
  A host on which the delivery attempt can be made at all: a socket can be created, the
  relay can be started, and what the relay writes to stderr is UTF-8.
\<close>

definition host_sound :: "net_env \<Rightarrow> bool" where
  "host_sound net =
     (socket_error net = None \<and>
      (case socat_run net of
         SocatExit returncode err \<Rightarrow> err \<noteq> None
       | SocatTimeoutExpired \<Rightarrow> True
       | SocatOSError e \<Rightarrow> False))"

text \<open>The \<open>key=value\<close> pairs among the arguments and among the lines of the stream.\<close>

definition arg_pairs :: "str list \<Rightarrow> dict" where
  "arg_pairs argv = map split_eq (filter has_eq (drop 2 argv))"

definition stream_pairs :: "str list \<Rightarrow> dict" where
  "stream_pairs stdin = map split_eq (filter has_eq (map strip stdin))"

section \<open>Example inputs\<close>

text \<open>
  A port that never appears; a guest without a cache; a port that delivers the header,
  one whole line and a cut line and then stays silent until the deadline of 30 seconds has
  passed; a port that delivers the header and a cut line without \<open>=\<close>.
\<close>

definition never_env :: port_env where
  "never_env =
     \<lparr>port_exists = (\<lambda>i. False), port_open_error = None, clock_start = 0, port_polls = []\<rparr>"

definition no_cache :: cache_fs where
  "no_cache = \<lparr>aggregate = None, key_files = Map.empty\<rparr>"

definition ex_partial :: port_env where
  "ex_partial =
     \<lparr>port_exists = (\<lambda>i. True), port_open_error = None, clock_start = 0,
      port_polls =
        [(0, Chunk (''QUBESDB-KVM-CONFIG'' @ [CHR 0x0A] @ ''/name=work'' @ [CHR 0x0A]
                      @ ''/memory=40'')),
         (1, Chunk []), (31, Chunk [])]\<rparr>"

definition ex_blank :: port_env where
  "ex_blank =
     \<lparr>port_exists = (\<lambda>i. True), port_open_error = None, clock_start = 0,
      port_polls = [(0, Chunk (''QUBESDB-KVM-CONFIG'' @ [CHR 0x0A] @ ''/name'')), (30, Chunk [])]\<rparr>"

text \<open>
  A command line of the sender with two \<open>key=value\<close> arguments; a host without the relay
  whose socket refuses the connection, does not exist, times out, or accepts the payload.
\<close>

definition ex_argv :: "str list" where
  "ex_argv =
     [lit ''qubesdb-config-inject.py'', lit ''/run/vm.sock'', lit ''name=a'', lit ''type=AppVM'']"

definition refused_net :: net_env where
  "refused_net =
     \<lparr>socat_found = False, socat_run = SocatTimeoutExpired, socket_error = None,
      sock_connect = Some (ConnectionRefusedError (lit ''[Errno 111] Connection refused'')),
      sock_sendall = None, stdout_strict = True\<rparr>"

definition notfound_net :: net_env where
  "notfound_net =
     \<lparr>socat_found = False, socat_run = SocatTimeoutExpired, socket_error = None,
      sock_connect = Some (FileNotFoundError (lit ''[Errno 2] No such file or directory'')),
      sock_sendall = None, stdout_strict = True\<rparr>"

definition timeout_net :: net_env where
  "timeout_net =
     \<lparr>socat_found = False, socat_run = SocatTimeoutExpired, socket_error = None,
      sock_connect = Some SocketTimeout, sock_sendall = None, stdout_strict = True\<rparr>"

definition listening_net :: net_env where
  "listening_net =
     \<lparr>socat_found = False, socat_run = SocatTimeoutExpired, socket_error = None,
      sock_connect = None, sock_sendall = None, stdout_strict = True\<rparr>"

section \<open>Dictionaries and lines\<close>

lemma map_of_dict_set: "map_of (dict_set d k v) = (map_of d)(k \<mapsto> v)"
  by (induction d) (auto simp: fun_eq_iff)

lemma dict_set_fresh: "k \<notin> fst ` set d \<Longrightarrow> dict_set d k v = d @ [(k, v)]"
  by (induction d) auto

lemma in_dict_set: "(a, b) \<in> set (dict_set d k v) \<Longrightarrow> (a, b) \<in> set d \<or> (a = k \<and> b = v)"
  by (induction d) (auto split: if_splits)

lemma map_of_foldl_dict_set:
  "map_of (foldl (\<lambda>d (k, v). dict_set d k v) d kvs) = map_of (rev kvs @ d)"
proof (induction kvs arbitrary: d)
  case Nil
  then show ?case by simp
next
  case (Cons kv kvs)
  obtain k v where kv: "kv = (k, v)" by (cases kv)
  show ?case
    by (simp add: Cons.IH kv map_of_dict_set map_add_def fun_eq_iff split: option.splits)
qed

lemma foldl_dict_set_distinct:
  "distinct (map fst (d @ kvs)) \<Longrightarrow> foldl (\<lambda>d (k, v). dict_set d k v) d kvs = d @ kvs"
proof (induction kvs arbitrary: d)
  case Nil
  then show ?case by simp
next
  case (Cons kv kvs)
  obtain k v where kv: "kv = (k, v)" by (cases kv)
  from Cons.prems have "k \<notin> fst ` set d" by (auto simp: kv)
  then have "dict_set d k v = d @ [(k, v)]" by (rule dict_set_fresh)
  moreover from Cons.prems have "distinct (map fst ((d @ [(k, v)]) @ kvs))" by (simp add: kv)
  ultimately show ?case using Cons.IH[of "d @ [(k, v)]"] by (simp add: kv)
qed

lemma strip_Nil_or:
  "strip s = [] \<or> (\<not> is_space (hd (strip s)) \<and> \<not> is_space (last (strip s)))"
proof (cases "strip s = []")
  case True
  then show ?thesis by simp
next
  case False
  define t where "t = dropWhile is_space s"
  have st: "strip s = rev (dropWhile is_space (rev t))" by (simp add: strip_def t_def)
  with False have ne: "dropWhile is_space (rev t) \<noteq> []" by simp
  then have "\<not> is_space (hd (dropWhile is_space (rev t)))" by (rule hd_dropWhile)
  then have l: "\<not> is_space (last (strip s))" using ne by (simp add: st last_rev)
  have tne: "t \<noteq> []" using ne by auto
  then have ht: "\<not> is_space (hd t)" unfolding t_def by (rule hd_dropWhile)
  obtain n where n: "strip s = take n t"
  proof
    show "strip s = take (length t - length (takeWhile is_space (rev t))) t"
      by (simp add: st dropWhile_eq_drop rev_drop)
  qed
  with False have "hd (strip s) = hd t" by (cases n; cases t) auto
  with ht l show ?thesis by simp
qed

lemma strip_id:
  assumes "s \<noteq> []" "\<not> is_space (hd s)" "\<not> is_space (last s)"
  shows "strip s = s"
proof -
  have "dropWhile is_space s = s" using assms by (cases s) auto
  moreover have "dropWhile is_space (rev s) = rev s"
    using assms by (cases "rev s") (auto simp: last_rev[symmetric] hd_rev)
  ultimately show ?thesis by (simp add: strip_def)
qed

lemma strip_padded:
  assumes "list_all is_space a" "list_all is_space b"
    and "m \<noteq> []" "\<not> is_space (hd m)" "\<not> is_space (last m)"
  shows "strip (a @ m @ b) = m"
proof -
  have 1: "dropWhile is_space (a @ m @ b) = m @ b"
    using assms by (cases m) (auto simp: dropWhile_append list_all_iff)
  have 2: "dropWhile is_space (rev b @ rev m) = rev m"
    using assms by (cases "rev m") (auto simp: dropWhile_append list_all_iff hd_rev)
  show ?thesis by (simp add: strip_def 1 2)
qed

lemma split_eq_decomp:
  assumes h: "has_eq line" and s: "split_eq line = (k, v)"
  shows "line = k @ 61 # v \<and> 61 \<notin> set k"
proof -
  have k: "k = takeWhile (\<lambda>c. c \<noteq> 61) line" and v: "v = tl (dropWhile (\<lambda>c. c \<noteq> 61) line)"
    using s by (auto simp: split_eq_def)
  have ne: "dropWhile (\<lambda>c. c \<noteq> 61) line \<noteq> []" using h by (auto simp: has_eq_def)
  then have "hd (dropWhile (\<lambda>c. c \<noteq> 61) line) = 61" using hd_dropWhile[OF ne] by simp
  with ne have "dropWhile (\<lambda>c. c \<noteq> 61) line = 61 # v"
    unfolding v by (cases "dropWhile (\<lambda>c. c \<noteq> 61) line") auto
  then have "line = k @ 61 # v" unfolding k by (metis takeWhile_dropWhile_id)
  moreover have "61 \<notin> set k" unfolding k by (auto dest: set_takeWhileD)
  ultimately show ?thesis by simp
qed

lemma split_eq_join: "61 \<notin> set k \<Longrightarrow> split_eq (k @ 61 # v) = (k, v)"
  by (induction k) (auto simp: split_eq_def)

lemma spec_split_eq: "spec_split line = split_eq line"
proof -
  have "take (length (takeWhile (\<lambda>c. c \<noteq> 61) line)) line = takeWhile (\<lambda>c. c \<noteq> 61) line"
    by (simp add: takeWhile_eq_take[symmetric])
  moreover have "drop (Suc (length (takeWhile (\<lambda>c. c \<noteq> 61) line))) line
      = tl (dropWhile (\<lambda>c. c \<noteq> 61) line)"
    by (simp add: dropWhile_eq_drop drop_Suc tl_drop)
  ultimately show ?thesis by (simp add: spec_split_def split_eq_def Let_def)
qed

lemma splitlines_from_line:
  "list_all (\<lambda>c. \<not> is_linebreak c) l \<Longrightarrow>
   splitlines_from cur (l @ 10 # rest) = (cur @ l) # splitlines_from [] rest"
proof (induction l arbitrary: cur)
  case Nil
  then show ?case by (simp add: is_linebreak_def)
next
  case (Cons c l)
  then have "\<not> is_linebreak c" by simp
  then have "c \<noteq> 13" by (auto simp: is_linebreak_def)
  then show ?case using Cons by simp
qed

section \<open>The parser\<close>

lemma parse_line_spec:
  "parse_line d raw =
     (if spec_kept (strip raw)
      then dict_set d (fst (split_eq (strip raw))) (snd (split_eq (strip raw))) else d)"
  by (auto simp: parse_line_def spec_kept_def Let_def split: prod.splits)

lemma map_of_foldl_parse_line:
  "map_of (foldl parse_line d ls)
     = map_of (rev (map spec_split (filter spec_kept (map strip ls))) @ d)"
proof (induction ls arbitrary: d)
  case Nil
  then show ?case by simp
next
  case (Cons l ls)
  have "map_of (foldl parse_line d (l # ls)) = map_of (foldl parse_line (parse_line d l) ls)"
    by simp
  also have "\<dots> = map_of (rev (map spec_split (filter spec_kept (map strip ls))) @ parse_line d l)"
    by (rule Cons.IH)
  also have "\<dots> = map_of (rev (map spec_split (filter spec_kept (map strip (l # ls)))) @ d)"
  proof (cases "spec_kept (strip l)")
    case True
    then show ?thesis
      by (simp add: parse_line_spec map_of_dict_set spec_split_eq map_add_def fun_eq_iff
          split: option.splits prod.splits)
  next
    case False
    then show ?thesis by (simp add: parse_line_spec)
  qed
  finally show ?case .
qed

lemma parse_line_trimmed:
  assumes "list_all trimmed d"
  shows "list_all trimmed (parse_line d raw)"
proof (cases "spec_kept (strip raw)")
  case False
  then show ?thesis using assms by (simp add: parse_line_spec)
next
  case True
  obtain k v where kv: "split_eq (strip raw) = (k, v)" by (cases "split_eq (strip raw)")
  from True have he: "has_eq (strip raw)" and ne: "strip raw \<noteq> []"
    by (auto simp: spec_kept_def)
  from split_eq_decomp[OF he kv] have dec: "strip raw = k @ 61 # v" by simp
  from strip_Nil_or[of raw] ne
  have hs: "\<not> is_space (hd (strip raw))" and ls: "\<not> is_space (last (strip raw))" by auto
  have "trimmed (k, v)"
    using hs ls unfolding dec by (cases k; cases v rule: rev_cases) (auto simp: trimmed_def)
  moreover have "\<And>a b. (a, b) \<in> set (dict_set d k v) \<Longrightarrow> (a, b) \<in> set d \<or> (a = k \<and> b = v)"
    by (rule in_dict_set)
  ultimately have "list_all trimmed (dict_set d k v)"
    using assms by (fastforce simp: list_all_iff)
  then show ?thesis using True kv by (simp add: parse_line_spec)
qed

lemma foldl_parse_line_trimmed:
  "list_all trimmed d \<Longrightarrow> list_all trimmed (foldl parse_line d ls)"
  by (induction ls arbitrary: d) (auto intro: parse_line_trimmed)

lemma parse_text_trimmed: "list_all trimmed (parse_text txt)"
  by (simp add: parse_text_def foldl_parse_line_trimmed)

lemma markers_clean:
  "lit ''QUBESDB-KVM-CONFIG'' \<noteq> []" "\<not> is_space (hd (lit ''QUBESDB-KVM-CONFIG''))"
  "\<not> is_space (last (lit ''QUBESDB-KVM-CONFIG''))"
  "lit ''QUBESDB-END'' \<noteq> []" "\<not> is_space (hd (lit ''QUBESDB-END''))"
  "\<not> is_space (last (lit ''QUBESDB-END''))"
  by (simp_all add: lit_def is_space_def)

lemma parse_line_markers:
  "parse_line d (lit ''QUBESDB-KVM-CONFIG'') = d" "parse_line d (lit ''QUBESDB-END'') = d"
  "parse_line d [] = d"
  by (simp_all add: parse_line_def strip_def lit_def is_space_def)

lemma parse_line_padded_marker:
  assumes "list_all is_space a" "list_all is_space b"
  shows "parse_line d (a @ lit ''QUBESDB-KVM-CONFIG'' @ b) = d"
    and "parse_line d (a @ lit ''QUBESDB-END'' @ b) = d"
proof -
  have "strip (a @ lit ''QUBESDB-KVM-CONFIG'' @ b) = lit ''QUBESDB-KVM-CONFIG''"
    using assms markers_clean(1-3) by (rule strip_padded)
  then show "parse_line d (a @ lit ''QUBESDB-KVM-CONFIG'' @ b) = d"
    by (simp add: parse_line_def)
  have "strip (a @ lit ''QUBESDB-END'' @ b) = lit ''QUBESDB-END''"
    using assms markers_clean(4-6) by (rule strip_padded)
  then show "parse_line d (a @ lit ''QUBESDB-END'' @ b) = d"
    by (simp add: parse_line_def)
qed

section \<open>The frame read back\<close>

lemma inject_payload_concat:
  "foldl (\<lambda>payload (k, v). payload @ k @ [61] @ v @ [10]) p kvs
     = p @ concat (map (\<lambda>(k, v). k @ [61] @ v @ [10]) kvs)"
  by (induction kvs arbitrary: p) auto

lemma splitlines_from_entries:
  "list_all line_safe kvs \<Longrightarrow>
   splitlines_from [] (concat (map (\<lambda>(k, v). k @ [61] @ v @ [10]) kvs) @ rest)
     = map (\<lambda>(k, v). k @ [61] @ v) kvs @ splitlines_from [] rest"
proof (induction kvs)
  case Nil
  then show ?case by simp
next
  case (Cons kv kvs)
  obtain k v where kv: "kv = (k, v)" by (cases kv)
  have nl: "list_all (\<lambda>c. \<not> is_linebreak c) (k @ [61] @ v)"
    using Cons.prems by (simp add: kv line_safe_def is_linebreak_def)
  have "splitlines_from []
          ((k @ [61] @ v) @ 10 # (concat (map (\<lambda>(k, v). k @ [61] @ v @ [10]) kvs) @ rest))
      = ([] @ (k @ [61] @ v))
          # splitlines_from [] (concat (map (\<lambda>(k, v). k @ [61] @ v @ [10]) kvs) @ rest)"
    using nl by (rule splitlines_from_line)
  then show ?case using Cons by (simp add: kv)
qed

lemma splitlines_payload:
  assumes "list_all line_safe kvs"
  shows "splitlines (inject_payload kvs)
     = lit ''QUBESDB-KVM-CONFIG'' # map (\<lambda>(k, v). k @ [61] @ v) kvs @ [[], lit ''QUBESDB-END'']"
proof -
  have h: "list_all (\<lambda>c. \<not> is_linebreak c) (lit ''QUBESDB-KVM-CONFIG'')"
    by (simp add: lit_def is_linebreak_def)
  have e: "list_all (\<lambda>c. \<not> is_linebreak c) (lit ''QUBESDB-END'')"
    by (simp add: lit_def is_linebreak_def)
  have f: "splitlines_from [] (lit QUBESDB_FOOTER) = [[], lit ''QUBESDB-END'']"
  proof -
    have "lit QUBESDB_FOOTER = [] @ 10 # (lit ''QUBESDB-END'' @ 10 # [])"
      by (simp add: lit_def QUBESDB_FOOTER_def)
    then show ?thesis
      using splitlines_from_line[of "[]" "[]" "lit ''QUBESDB-END'' @ 10 # []"]
        splitlines_from_line[OF e, of "[]" "[]"] by simp
  qed
  have p: "inject_payload kvs = lit ''QUBESDB-KVM-CONFIG''
      @ 10 # (concat (map (\<lambda>(k, v). k @ [61] @ v @ [10]) kvs) @ lit QUBESDB_FOOTER)"
  proof -
    have "lit QUBESDB_HEADER = lit ''QUBESDB-KVM-CONFIG'' @ [10]"
      by (simp add: lit_def QUBESDB_HEADER_def)
    then show ?thesis
      unfolding inject_payload_def inject_payload_concat by simp
  qed
  show ?thesis
    unfolding splitlines_def p
    using splitlines_from_line[OF h, of "[]"] splitlines_from_entries[OF assms] f by simp
qed

lemma parse_line_entry:
  assumes "line_safe (k, v)" "spec_entry (k, v)"
  shows "parse_line d (k @ [61] @ v) = dict_set d k v"
proof -
  from assms have "strip (k @ [61] @ v) = k @ [61] @ v"
    by (intro strip_id) (auto simp: line_safe_def spec_entry_def)
  moreover have "spec_kept (k @ [61] @ v)"
  proof -
    have "has_eq (k @ [61] @ v)" by (simp add: has_eq_def)
    moreover have "\<not> has_eq (lit ''QUBESDB-KVM-CONFIG'')" "\<not> has_eq (lit ''QUBESDB-END'')"
      by (simp_all add: has_eq_def lit_def)
    ultimately show ?thesis unfolding spec_kept_def by auto
  qed
  moreover have "split_eq (k @ [61] @ v) = (k, v)"
    using assms split_eq_join[of k v] by (simp add: spec_entry_def has_eq_def)
  ultimately show ?thesis by (simp add: parse_line_spec)
qed

lemma foldl_parse_line_entries:
  "list_all line_safe kvs \<Longrightarrow> list_all spec_entry kvs \<Longrightarrow>
   foldl parse_line d (map (\<lambda>(k, v). k @ [61] @ v) kvs @ rest)
     = foldl parse_line (foldl (\<lambda>d (k, v). dict_set d k v) d kvs) rest"
proof (induction kvs arbitrary: d)
  case Nil
  then show ?case by simp
next
  case (Cons kv kvs)
  obtain k v where kv: "kv = (k, v)" by (cases kv)
  from Cons.prems have "parse_line d (k @ [61] @ v) = dict_set d k v"
    by (intro parse_line_entry) (auto simp: kv)
  then show ?case using Cons by (simp add: kv)
qed

lemma parse_text_payload:
  assumes "list_all line_safe kvs" "list_all spec_entry kvs"
  shows "parse_text (inject_payload kvs) = foldl (\<lambda>d (k, v). dict_set d k v) [] kvs"
  unfolding parse_text_def splitlines_payload[OF assms(1)]
  using foldl_parse_line_entries[OF assms, of "[]" "[[], lit ''QUBESDB-END'']"]
  by (simp add: parse_line_markers)

lemmas eval_text =
  lit_def strip_def is_space_def is_linebreak_def has_eq_def split_eq_def splitlines_def
  parse_line_def parse_text_def inject_payload_def QUBESDB_HEADER_def QUBESDB_FOOTER_def

lemmas eval_cache =
  save_cache_def load_cache_def safe_key_def open_for_write_def utf8_len_def lit_def

lemmas eval_read =
  read_main_def read_from_virtio_def wait_for_port_def read_open_def utf8_decode_def is_cont_def second_ok_def
  query_mode_def fallback_def

section \<open>The wait phase and the read phase\<close>

lemma wait_loop_never:
  "(\<And>j. \<not> ex j) \<Longrightarrow>
   wait_loop ex timeout i waited = (Suc (i + nat (timeout - waited)), max waited timeout)"
proof (induction ex timeout i waited rule: wait_loop.induct)
  case (1 ex timeout i waited)
  show ?case
  proof (cases "waited < timeout")
    case True
    then have "wait_loop ex timeout i waited = wait_loop ex timeout (Suc i) (waited + 1)"
      using "1.prems" by (subst wait_loop.simps) simp
    also have "\<dots> = (Suc (Suc i + nat (timeout - (waited + 1))), max (waited + 1) timeout)"
      using True "1.prems" by (intro "1.IH") auto
    also have "\<dots> = (Suc (i + nat (timeout - waited)), max waited timeout)"
      using True by (simp add: nat_diff_distrib max_def)
    finally show ?thesis .
  next
    case False
    then show ?thesis by (subst wait_loop.simps) (simp add: max_def)
  qed
qed

lemma wait_loop_bound: "snd (wait_loop ex timeout i waited) \<le> max waited timeout"
proof (induction ex timeout i waited rule: wait_loop.induct)
  case (1 ex timeout i waited)
  show ?case
  proof (cases "\<not> ex i \<and> waited < timeout")
    case True
    then have "wait_loop ex timeout i waited = wait_loop ex timeout (Suc i) (waited + 1)"
      by (subst wait_loop.simps) simp
    moreover have "snd (wait_loop ex timeout (Suc i) (waited + 1)) \<le> max (waited + 1) timeout"
      using True by (intro "1.IH") auto
    ultimately show ?thesis using True by (simp add: max_def)
  next
    case False
    then show ?thesis by (subst wait_loop.simps) (auto simp add: max_def)
  qed
qed

lemma wait_for_port_bound: "snd (snd (wait_for_port ex timeout)) \<le> max 0 timeout"
  using wait_loop_bound[of ex timeout 1 0]
  by (auto simp: wait_for_port_def split: prod.splits)

lemma wait_for_port_never:
  assumes "\<And>j. \<not> ex j"
  shows "wait_for_port ex timeout = (False, [Waiting, NotFoundAfter timeout], max 0 timeout)"
  using assms by (simp add: wait_for_port_def wait_loop_never)

lemma read_from_virtio_never:
  assumes "\<And>j. \<not> port_exists env j"
  shows "read_from_virtio decode timeout env
           = Some ([], [Waiting, NotFoundAfter timeout], max 0 timeout)"
  using assms by (simp add: read_from_virtio_def wait_for_port_never)

lemma read_loop_deadline:
  "(t, r) \<in> set polls \<Longrightarrow> deadline \<le> t \<Longrightarrow> read_loop deadline polls data \<noteq> None"
  by (induction polls arbitrary: data) (auto split: read_result.splits simp: Let_def)

lemma read_main_empty:
  assumes "\<not> query_mode argv" "read_from_virtio decode 30 env = Some ([], msgs, w)"
  shows "read_main decode argv env fs = Some (fst (fallback fs), fs, msgs @ snd (fallback fs))"
  using assms by (simp add: read_main_def query_mode_def split: prod.splits)

lemma read_main_fresh:
  assumes "\<not> query_mode argv" "read_from_virtio decode 30 env = Some (entries, msgs, w)"
    and "entries \<noteq> []"
  shows "read_main decode argv env fs =
     (case save_cache entries fs of
        (Some e, fs', msgs') \<Rightarrow> Some (Uncaught e, fs', msgs @ msgs')
      | (None, fs', msgs') \<Rightarrow>
          Some (Returned, fs',
            msgs @ msgs' @ [EntriesLoaded (length entries)]
              @ map (\<lambda>(k, v). EntryLine k v) (sort entries)))"
  using assms by (simp add: read_main_def query_mode_def)

lemma read_main_not_aborted:
  assumes "\<not> query_mode argv" "read_main decode argv env fs = Some (out, fs', msgs)"
    and "\<not> aborted out"
  shows "exit_status out = 0"
proof -
  from assms(1,2) obtain entries m w
    where rv: "read_from_virtio decode 30 env = Some (entries, m, w)"
    by (auto simp: read_main_def query_mode_def split: option.splits)
  show ?thesis
  proof (cases "entries = []")
    case True
    then have "out = fst (fallback fs)"
      using read_main_empty[OF assms(1), of decode env m w fs] rv assms(2) by simp
    then show ?thesis using assms(3) by (auto simp: fallback_def split: sum.splits if_splits)
  next
    case False
    then show ?thesis using read_main_fresh[OF assms(1) rv False, of fs] assms(2,3)
      by (auto split: prod.splits option.splits)
  qed
qed

lemma example_argv_reads: "\<not> query_mode [lit ''qubesdb-config-read.py'']"
  by (simp add: query_mode_def lit_def)

lemma never_env_read:
  "read_from_virtio utf8_decode 30 never_env = Some ([], [Waiting, NotFoundAfter 30], 30)"
  using read_from_virtio_never[of never_env utf8_decode 30] by (simp add: never_env_def)

section \<open>The cache files\<close>

lemma write_entries_ok:
  "fst (write_entries entries files) = None
     \<longleftrightarrow> list_all (\<lambda>(k, v). open_for_write (safe_key k) = None) entries"
  by (induction entries arbitrary: files) (auto split: option.splits)

lemma write_entries_files:
  "fst (write_entries entries files) = None \<Longrightarrow>
   snd (write_entries entries files) = files ++ per_key_view entries"
proof (induction entries arbitrary: files)
  case Nil
  then show ?case by (simp add: per_key_view_def)
next
  case (Cons kv entries)
  obtain k v where kv: "kv = (k, v)" by (cases kv)
  from Cons.prems have o: "open_for_write (safe_key k) = None"
    by (auto simp: kv split: option.splits)
  with Cons.prems have "fst (write_entries entries (files(safe_key k \<mapsto> v))) = None"
    by (simp add: kv)
  then have "snd (write_entries entries (files(safe_key k \<mapsto> v)))
      = files(safe_key k \<mapsto> v) ++ per_key_view entries"
    by (rule Cons.IH)
  also have "\<dots> = files ++ per_key_view ((k, v) # entries)"
    by (auto simp: per_key_view_def map_add_def fun_eq_iff split: option.splits)
  finally show ?case using o by (simp add: kv)
qed

lemma per_key_view_distinct:
  assumes "distinct (map (\<lambda>(k, v). safe_key k) entries)" "(k, v) \<in> set entries"
  shows "per_key_view entries (safe_key k) = Some v"
proof -
  have "distinct (map fst (rev (map (\<lambda>(k, v). (safe_key k, v)) entries)))"
    using assms(1) by (simp add: rev_map[symmetric] comp_def case_prod_unfold)
  moreover have "(safe_key k, v) \<in> set (rev (map (\<lambda>(k, v). (safe_key k, v)) entries))"
    using assms(2) by force
  ultimately show ?thesis unfolding per_key_view_def by (rule map_of_is_SomeI)
qed

section \<open>The sender's entries\<close>

lemma foldl_arg_entry:
  "foldl arg_entry d args
     = foldl (\<lambda>d (k, v). dict_set d k v) d (map split_eq (filter has_eq args))"
  by (induction args arbitrary: d) (auto simp: arg_entry_def split: prod.splits)

lemma foldl_stdin_entry:
  "foldl stdin_entry d ls
     = foldl (\<lambda>d (k, v). dict_set d k v) d (map split_eq (filter has_eq (map strip ls)))"
  by (induction ls arbitrary: d) (auto simp: stdin_entry_def Let_def split: prod.splits)

lemma merged_entries_pairs:
  "merged_entries argv isatty stdin
     = foldl (\<lambda>d (k, v). dict_set d k v) []
         (arg_pairs argv @ (if isatty then [] else stream_pairs stdin))"
  by (simp add: merged_entries_def Let_def foldl_arg_entry foldl_stdin_entry arg_pairs_def
      stream_pairs_def)

section \<open>The delivery attempt\<close>

lemma encodable_append: "encodable (a @ b) = (encodable a \<and> encodable b)"
  by (simp add: encodable_def)

lemma encodable_payload:
  "encodable (inject_payload d) = list_all (\<lambda>(k, v). encodable k \<and> encodable v) d"
proof -
  have h: "encodable (lit QUBESDB_HEADER)" "encodable (lit QUBESDB_FOOTER)"
    by (simp_all add: encodable_def lit_def QUBESDB_HEADER_def QUBESDB_FOOTER_def)
  have c: "encodable (concat (map (\<lambda>(k, v). k @ [61] @ v @ [10]) d))
      = list_all (\<lambda>(k, v). encodable k \<and> encodable v) d"
    by (induction d) (auto simp: encodable_def)
  show ?thesis
    unfolding inject_payload_def inject_payload_concat
    by (simp only: encodable_append h c simp_thms)
qed

lemma sock_failed_shape: "\<exists>m. sock_failed p x = (Inr False, [m], None)"
  by (cases x) (simp_all add: sock_failed_def)

lemma report_injected_shape:
  "report_injected p d payload net = (Inl UnicodeEncodeError, [], Some payload) \<or>
   report_injected p d payload net = (Inr True, [Injected (length d) p], Some payload)"
  by (simp add: report_injected_def)

lemma inject_socat:
  "socat_found net \<Longrightarrow>
   inject p d net =
     (if \<not> encodable (inject_payload d) then (Inl UnicodeEncodeError, [], None)
      else
        (case socat_run net of
           SocatOSError e \<Rightarrow> (Inl (SubprocessOSError e), [], None)
         | SocatTimeoutExpired \<Rightarrow> (Inr False, [TimeoutNotReading p], None)
         | SocatExit returncode err \<Rightarrow>
             if returncode = 0 then report_injected p d (inject_payload d) net
             else
               (case err of
                  None \<Rightarrow> (Inl UnicodeDecodeError, [], None)
                | Some e \<Rightarrow> (Inr False, [SocatError e], None))))"
  by (simp add: inject_def Let_def)

lemma inject_socket:
  "\<not> socat_found net \<Longrightarrow>
   inject p d net =
     (case socket_error net of
        Some e \<Rightarrow> (Inl (SocketOSError e), [], None)
      | None \<Rightarrow>
          (case sock_connect net of
             Some x \<Rightarrow> sock_failed p x
           | None \<Rightarrow>
               if \<not> encodable (inject_payload d) then (Inl UnicodeEncodeError, [], None)
               else
                 (case sock_sendall net of
                    Some x \<Rightarrow> sock_failed p x
                  | None \<Rightarrow> report_injected p d (inject_payload d) net)))"
  by (simp add: inject_def Let_def)

lemma inject_shape:
  "(\<exists>e s. inject p d net = (Inl e, [], s)) \<or>
   (\<exists>m. inject p d net = (Inr False, [m], None)) \<or>
   inject p d net = (Inr True, [Injected (length d) p], Some (inject_payload d))"
proof (cases "socat_found net")
  case True
  show ?thesis
    using report_injected_shape[of p d "inject_payload d" net]
    by (auto simp: inject_socat[OF True] split: socat_result.split option.split)
next
  case False
  show ?thesis
    using report_injected_shape[of p d "inject_payload d" net]
      sock_failed_shape[of p]
    by (simp add: inject_socket[OF False] split: option.split) metis
qed

lemma inject_returns:
  assumes "encodable p" "list_all (\<lambda>(k, v). encodable k \<and> encodable v) d" "host_sound net"
  shows "\<exists>ok. fst (inject p d net) = Inr ok"
proof -
  from assms(2) have e: "encodable (inject_payload d)" by (simp add: encodable_payload)
  have r: "report_injected p d (inject_payload d) net
      = (Inr True, [Injected (length d) p], Some (inject_payload d))"
    using assms(1) by (simp add: report_injected_def)
  show ?thesis
  proof (cases "socat_found net")
    case True
    show ?thesis
      using assms(3) e r
      by (auto simp: inject_socat[OF True] host_sound_def split: socat_result.split option.split)
  next
    case False
    have "\<And>x. \<exists>ok. fst (sock_failed p x) = Inr ok"
      using sock_failed_shape[of p] by (metis fst_conv)
    then show ?thesis
      using assms(3) e r
      by (auto simp: inject_socket[OF False] host_sound_def split: option.split)
  qed
qed

lemma inject_same_handler:
  "inject p d (net\<lparr>sock_connect := Some (ConnectionRefusedError e)\<rparr>)
     = inject p d (net\<lparr>sock_connect := Some (FileNotFoundError e)\<rparr>)"
  "inject p d (net\<lparr>sock_connect := Some (FileNotFoundError e)\<rparr>)
     = inject p d (net\<lparr>sock_connect := Some (OtherOSError e)\<rparr>)"
proof -
  show "inject p d (net\<lparr>sock_connect := Some (ConnectionRefusedError e)\<rparr>)
     = inject p d (net\<lparr>sock_connect := Some (FileNotFoundError e)\<rparr>)"
  proof (cases "socat_found net")
    case True
    then show ?thesis by (simp add: inject_socat report_injected_def split: socat_result.split)
  next
    case False
    then show ?thesis by (simp add: inject_socket sock_failed_def split: option.split)
  qed
  show "inject p d (net\<lparr>sock_connect := Some (FileNotFoundError e)\<rparr>)
     = inject p d (net\<lparr>sock_connect := Some (OtherOSError e)\<rparr>)"
  proof (cases "socat_found net")
    case True
    then show ?thesis by (simp add: inject_socat report_injected_def split: socat_result.split)
  next
    case False
    then show ?thesis by (simp add: inject_socket sock_failed_def split: option.split)
  qed
qed

section \<open>Claims about the parser and the frame\<close>

text \<open>
  C9. For every decoded text the parser agrees with the specification's wording: blank
  lines, the two marker lines and every other line without \<open>=\<close> add nothing and raise
  nothing, every remaining line is split at its first \<open>=\<close>, and a later pair replaces an
  earlier one with the same key. The lines are taken as the parser sees them, after the
  strip of C10. A frame with \<open>garbage-no-equals\<close> between two valid lines yields exactly
  the two valid pairs.
\<close>

theorem C9_parser_follows_frame_rule:
  "map_of (parse_text txt) = spec_parse txt \<and>
   parse_line d raw =
     (if spec_kept (strip raw)
      then dict_set d (fst (spec_split (strip raw))) (snd (spec_split (strip raw))) else d) \<and>
   parse_text (lit ''QUBESDB-KVM-CONFIG'' @ [10] @ lit ''/name=work'' @ [10]
       @ lit ''garbage-no-equals'' @ [10] @ lit ''/memory=4096'' @ [10, 10]
       @ lit ''QUBESDB-END'' @ [10])
     = [(lit ''/name'', lit ''work''), (lit ''/memory'', lit ''4096'')]"
proof (intro conjI)
  show "map_of (parse_text txt) = spec_parse txt"
    by (simp add: parse_text_def spec_parse_def map_of_foldl_parse_line)
  show "parse_line d raw =
     (if spec_kept (strip raw)
      then dict_set d (fst (spec_split (strip raw))) (snd (spec_split (strip raw))) else d)"
    by (simp add: parse_line_spec spec_split_eq)
  show "parse_text (lit ''QUBESDB-KVM-CONFIG'' @ [10] @ lit ''/name=work'' @ [10]
       @ lit ''garbage-no-equals'' @ [10] @ lit ''/memory=4096'' @ [10, 10]
       @ lit ''QUBESDB-END'' @ [10])
     = [(lit ''/name'', lit ''work''), (lit ''/memory'', lit ''4096'')]"
    by (simp add: eval_text)
qed

theorem C9_witness:
  "spec_parse (lit ''a=b=c'' @ [10] @ lit ''junk'' @ [10] @ lit ''a=d'') (lit ''a'') = Some (lit ''d'') \<and>
   parse_line [] (lit ''a=b=c'') = [(lit ''a'', lit ''b=c'')] \<and>
   parse_line [(lit ''a'', lit ''x'')] (lit ''junk'') = [(lit ''a'', lit ''x'')]"
  using C9_parser_follows_frame_rule[of "lit ''a=b=c'' @ [10] @ lit ''junk'' @ [10] @ lit ''a=d''" "[]" "lit ''a=b=c''"]
  by (simp add: eval_text spec_parse_def spec_kept_def spec_split_def)

text \<open>
  C10. The parser strips every line before it looks for markers and for \<open>=\<close>: no parsed
  key starts with whitespace and no parsed value ends with whitespace; so a value that
  was sent with whitespace at its end is not the value read back for its key; and a
  marker line padded with whitespace on either side is skipped as a marker.
\<close>

theorem C10_lines_are_stripped:
  "list_all trimmed (parse_text txt) \<and>
   ((k, v) \<in> set entries \<and> v \<noteq> [] \<and> is_space (last v)
      \<longrightarrow> map_of (parse_text (inject_payload entries)) k \<noteq> Some v) \<and>
   (list_all is_space a \<and> list_all is_space b
      \<longrightarrow> parse_line d (a @ lit ''QUBESDB-KVM-CONFIG'' @ b) = d \<and>
          parse_line d (a @ lit ''QUBESDB-END'' @ b) = d)"
proof (intro conjI impI)
  show "list_all trimmed (parse_text txt)" by (rule parse_text_trimmed)
next
  assume a: "(k, v) \<in> set entries \<and> v \<noteq> [] \<and> is_space (last v)"
  show "map_of (parse_text (inject_payload entries)) k \<noteq> Some v"
  proof
    assume "map_of (parse_text (inject_payload entries)) k = Some v"
    then have "(k, v) \<in> set (parse_text (inject_payload entries))" by (rule map_of_SomeD)
    with parse_text_trimmed[of "inject_payload entries"] have "trimmed (k, v)"
      by (auto simp: list_all_iff)
    with a show False by (simp add: trimmed_def)
  qed
next
  assume "list_all is_space a \<and> list_all is_space b"
  then show "parse_line d (a @ lit ''QUBESDB-KVM-CONFIG'' @ b) = d"
    by (simp add: parse_line_padded_marker)
next
  assume "list_all is_space a \<and> list_all is_space b"
  then show "parse_line d (a @ lit ''QUBESDB-END'' @ b) = d"
    by (simp add: parse_line_padded_marker)
qed

theorem C10_witness:
  "parse_text ([32, 9] @ lit ''a = b'' @ [9, 32, 10]) = [(lit ''a '', lit '' b'')] \<and>
   trimmed (lit ''a '', lit '' b'') \<and>
   is_space (last (lit ''v'' @ [9])) \<and>
   map_of (parse_text (inject_payload [(lit ''k'', lit ''v'' @ [9])])) (lit ''k'') = Some (lit ''v'') \<and>
   list_all is_space [32, 32] \<and> list_all is_space [9] \<and>
   parse_line [] ([32, 32] @ lit ''QUBESDB-END'' @ [9]) = []"
  using C10_lines_are_stripped[of "[32, 9] @ lit ''a = b'' @ [9, 32, 10]" "lit ''k''" "lit ''v'' @ [9]"
      "[(lit ''k'', lit ''v'' @ [9])]" "[32, 32]" "[9]" "[]"]
  by (simp add: eval_text trimmed_def)

text \<open>
  C4, as stated, fails: the entry \<open>k\<close>, \<open>v \<close> (a value that ends in a space) has a
  non-empty key without \<open>=\<close> and a non-empty value, and is read back as \<open>k\<close>, \<open>v\<close>.
\<close>

theorem C4_counterexample:
  "list_all spec_entry [(lit ''k'', lit ''v '')] \<and>
   parse_text (inject_payload [(lit ''k'', lit ''v '')]) = [(lit ''k'', lit ''v'')] \<and>
   map_of (parse_text (inject_payload [(lit ''k'', lit ''v '')])) (lit ''k'')
     \<noteq> map_of [(lit ''k'', lit ''v '')] (lit ''k'')"
  by (simp add: eval_text spec_entry_def)

text \<open>
  C4, amended. For every list of entries whose keys and values are non-empty, whose keys
  hold no \<open>=\<close>, whose keys and values hold no line boundary, whose keys do not start with
  whitespace and whose values do not end with whitespace, parsing the sender's frame gives
  the original mapping, a later entry winning over an earlier one with the same key; when
  the keys are distinct, as in a dictionary, the parsed dictionary is the original one,
  in the same order.
\<close>

theorem C4_roundtrip_of_line_safe_entries:
  assumes "list_all spec_entry kvs" "list_all line_safe kvs"
  shows "map_of (parse_text (inject_payload kvs)) = map_of (rev kvs) \<and>
         (distinct (map fst kvs) \<longrightarrow> parse_text (inject_payload kvs) = kvs)"
  using assms foldl_dict_set_distinct[of "[]" kvs]
  by (simp add: parse_text_payload map_of_foldl_dict_set)

theorem C4_witness:
  "list_all spec_entry [(lit ''/name'', lit ''work''), (lit ''/memory'', lit ''a=b c'')] \<and>
   list_all line_safe [(lit ''/name'', lit ''work''), (lit ''/memory'', lit ''a=b c'')] \<and>
   distinct (map fst [(lit ''/name'', lit ''work''), (lit ''/memory'', lit ''a=b c'')]) \<and>
   parse_text (inject_payload [(lit ''/name'', lit ''work''), (lit ''/memory'', lit ''a=b c'')])
     = [(lit ''/name'', lit ''work''), (lit ''/memory'', lit ''a=b c'')]"
proof -
  have 1: "list_all spec_entry [(lit ''/name'', lit ''work''), (lit ''/memory'', lit ''a=b c'')]"
    by (simp add: spec_entry_def has_eq_def lit_def)
  have 2: "list_all line_safe [(lit ''/name'', lit ''work''), (lit ''/memory'', lit ''a=b c'')]"
    by (simp add: line_safe_def is_linebreak_def is_space_def lit_def)
  have 3: "distinct (map fst [(lit ''/name'', lit ''work''), (lit ''/memory'', lit ''a=b c'')])"
    by (simp add: lit_def)
  from C4_roundtrip_of_line_safe_entries[OF 1 2] 3 1 2 show ?thesis by blast
qed

section \<open>Claims about the receiver\<close>

text \<open>
  C8. Against a port that never appears the wait phase makes exactly \<open>timeout\<close> sleeps of
  one second each (none for a timeout below one), one between two polls, and then returns:
  it reports the port as missing, \<open>read_from_virtio\<close> returns the empty dictionary without
  raising, and \<open>main\<close> goes on to the cache fallback, leaving the cache as it was. Whatever
  the port does, the wait phase never sleeps more than \<open>timeout\<close> times. The time spent
  outside the sleeps is not part of the model.
\<close>

theorem C8_wait_phase_is_bounded:
  assumes "\<forall>j. \<not> port_exists env j"
  shows "wait_for_port (port_exists env) timeout
           = (False, [Waiting, NotFoundAfter timeout], max 0 timeout) \<and>
         read_from_virtio decode timeout env
           = Some ([], [Waiting, NotFoundAfter timeout], max 0 timeout) \<and>
         (\<not> query_mode argv \<longrightarrow>
            read_main decode argv env fs
              = Some (fst (fallback fs), fs, [Waiting, NotFoundAfter 30] @ snd (fallback fs))) \<and>
         snd (snd (wait_for_port ex timeout)) \<le> max 0 timeout"
proof -
  from assms have n: "\<And>j. \<not> port_exists env j" by simp
  have r: "read_from_virtio decode 30 env = Some ([], [Waiting, NotFoundAfter 30], 30)"
    using read_from_virtio_never[OF n, of decode 30] by simp
  show ?thesis
    using wait_for_port_never[of "port_exists env" timeout, OF n]
      read_from_virtio_never[OF n, of decode timeout]
      read_main_empty[OF _ r, of argv fs] wait_for_port_bound[of ex timeout]
    by simp
qed

theorem C8_witness:
  "wait_for_port (port_exists never_env) 30 = (False, [Waiting, NotFoundAfter 30], 30) \<and>
   read_from_virtio utf8_decode 30 never_env = Some ([], [Waiting, NotFoundAfter 30], 30) \<and>
   read_main utf8_decode [lit ''qubesdb-config-read.py''] never_env no_cache
     = Some (Returned, no_cache, [Waiting, NotFoundAfter 30, WarnNoConfig]) \<and>
   fst (wait_for_port (\<lambda>i. 3 \<le> i) 30) \<and>
   snd (snd (wait_for_port (\<lambda>i. 3 \<le> i) 30)) \<le> 30"
proof -
  have n: "\<forall>j. \<not> port_exists never_env j" by (simp add: never_env_def)
  have f: "fst (wait_for_port (\<lambda>i. 3 \<le> i) 30)"
    by (simp add: wait_for_port_def wait_loop.simps)
  from C8_wait_phase_is_bounded[OF n, of 30 utf8_decode "[lit ''qubesdb-config-read.py'']"
      no_cache "\<lambda>i. 3 \<le> i"] example_argv_reads f
  show ?thesis by (simp add: fallback_def load_cache_def no_cache_def)
qed

text \<open>
  C2, as stated, fails: the port delivers the header, the line \<open>/name=work\<close> and the cut
  line \<open>/memory=40\<close>, and nothing more until the deadline has passed. The footer is never
  in the buffer, yet both entries, the second with its cut value, are saved to the cache.
\<close>

theorem C2_counterexample:
  "read_loop (clock_start ex_partial + 30) (port_polls ex_partial) []
     = Some (Inr (''QUBESDB-KVM-CONFIG'' @ [CHR 0x0A] @ ''/name=work'' @ [CHR 0x0A]
                    @ ''/memory=40'')) \<and>
   \<not> bytes_in QUBESDB_FOOTER
       (''QUBESDB-KVM-CONFIG'' @ [CHR 0x0A] @ ''/name=work'' @ [CHR 0x0A] @ ''/memory=40'') \<and>
   map_option (\<lambda>(out, fs', msgs). (out, aggregate fs', msgs))
     (read_main utf8_decode [lit ''qubesdb-config-read.py''] ex_partial no_cache)
     = Some (Returned,
         Some (JsonObject [(lit ''/name'', lit ''work''), (lit ''/memory'', lit ''40'')]),
         [ReadingPort, CachedEntries 2, EntriesLoaded 2,
          EntryLine (lit ''/memory'') (lit ''40''), EntryLine (lit ''/name'') (lit ''work'')])"
  by (simp add: ex_partial_def no_cache_def eval_read save_cache_def
      safe_key_def open_for_write_def utf8_len_def eval_text)

text \<open>
  C2, amended. When the port was found and opened and the read loop ends at the deadline
  with a buffer that does not hold the footer, the buffer is decoded and parsed all the
  same: the entries parsed from it are what \<open>read_from_virtio\<close> returns; when there is at
  least one, \<open>main\<close> saves them to the cache, and only when there is none does \<open>main\<close> fall
  back to the cache and leave it as it was. The read loop does end once the clock has
  reached the deadline.
\<close>

theorem C2_partial_buffer_is_parsed:
  assumes "\<not> query_mode argv"
    and "fst (wait_for_port (port_exists env) 30)"
    and "port_open_error env = None"
    and "read_loop (clock_start env + 30) (port_polls env) [] = Some (Inr data)"
    and "\<not> bytes_in QUBESDB_FOOTER data"
  shows "map_option fst (read_from_virtio decode 30 env) = Some (parse_text (decode data)) \<and>
         (parse_text (decode data) \<noteq> [] \<longrightarrow>
            map_option (\<lambda>(out, fs', msgs). aggregate fs') (read_main decode argv env fs)
              = Some (Some (JsonObject (parse_text (decode data))))) \<and>
         (parse_text (decode data) = [] \<longrightarrow>
            map_option (\<lambda>(out, fs', msgs). (out, fs')) (read_main decode argv env fs)
              = Some (fst (fallback fs), fs)) \<and>
         ((t, r) \<in> set polls \<and> deadline \<le> t \<longrightarrow> read_loop deadline polls buf \<noteq> None)"
proof -
  obtain m w where wf: "wait_for_port (port_exists env) 30 = (True, m, w)"
    using assms(2) by (cases "wait_for_port (port_exists env) 30") auto
  have ro: "read_open decode 30 env = Some (parse_text (decode data), [ReadingPort])"
    using assms(3,4) by (simp add: read_open_def)
  have rv: "read_from_virtio decode 30 env
      = Some (parse_text (decode data), m @ [ReadingPort], w)"
    by (simp add: read_from_virtio_def wf ro)
  have 1: "map_option fst (read_from_virtio decode 30 env) = Some (parse_text (decode data))"
    by (simp add: rv)
  have 2: "map_option (\<lambda>(out, fs', msgs). aggregate fs') (read_main decode argv env fs)
              = Some (Some (JsonObject (parse_text (decode data))))"
    if "parse_text (decode data) \<noteq> []"
    using read_main_fresh[OF assms(1) rv that, of fs]
    by (auto simp: save_cache_def split: prod.splits option.splits)
  have 3: "map_option (\<lambda>(out, fs', msgs). (out, fs')) (read_main decode argv env fs)
              = Some (fst (fallback fs), fs)"
    if "parse_text (decode data) = []"
    using read_main_empty[OF assms(1), of decode env "m @ [ReadingPort]" w fs] rv that by simp
  have 4: "read_loop deadline polls buf \<noteq> None" if "(t, r) \<in> set polls \<and> deadline \<le> t"
    using that read_loop_deadline[of t r polls deadline buf] by simp
  from 1 2 3 4 show ?thesis by blast
qed

theorem C2_witness:
  "\<not> query_mode [lit ''qubesdb-config-read.py''] \<and>
   fst (wait_for_port (port_exists ex_blank) 30) \<and>
   port_open_error ex_blank = None \<and>
   read_loop (clock_start ex_blank + 30) (port_polls ex_blank) []
     = Some (Inr (''QUBESDB-KVM-CONFIG'' @ [CHR 0x0A] @ ''/name'')) \<and>
   \<not> bytes_in QUBESDB_FOOTER (''QUBESDB-KVM-CONFIG'' @ [CHR 0x0A] @ ''/name'') \<and>
   parse_text (utf8_decode (''QUBESDB-KVM-CONFIG'' @ [CHR 0x0A] @ ''/name'')) = [] \<and>
   map_option (\<lambda>(out, fs', msgs). (out, fs'))
       (read_main utf8_decode [lit ''qubesdb-config-read.py''] ex_blank no_cache)
     = Some (Returned, no_cache)"
proof -
  have 2: "fst (wait_for_port (port_exists ex_blank) 30)"
    by (simp add: wait_for_port_def ex_blank_def)
  have 3: "port_open_error ex_blank = None" by (simp add: ex_blank_def)
  have 4: "read_loop (clock_start ex_blank + 30) (port_polls ex_blank) []
     = Some (Inr (''QUBESDB-KVM-CONFIG'' @ [CHR 0x0A] @ ''/name''))"
    by (simp add: ex_blank_def QUBESDB_FOOTER_def)
  have 5: "\<not> bytes_in QUBESDB_FOOTER (''QUBESDB-KVM-CONFIG'' @ [CHR 0x0A] @ ''/name'')"
    by (simp add: QUBESDB_FOOTER_def)
  have 6: "parse_text (utf8_decode (''QUBESDB-KVM-CONFIG'' @ [CHR 0x0A] @ ''/name'')) = []"
    by (simp add: utf8_decode_def is_cont_def second_ok_def eval_text)
  have 7: "fst (fallback no_cache) = Returned"
    by (simp add: fallback_def load_cache_def no_cache_def)
  from C2_partial_buffer_is_parsed[OF example_argv_reads 2 3 4 5, of utf8_decode no_cache]
    example_argv_reads 2 3 4 5 6 7
  show ?thesis by simp
qed

text \<open>
  C5. For every prior state of the cache, when the read phase yields the empty dictionary
  \<open>main\<close> takes the fallback path and writes nothing: the aggregate document and the
  per-key files are what they were, and \<open>load_cache\<close> returns after the attempt what it
  returned before.
\<close>

theorem C5_empty_read_leaves_cache:
  assumes "\<not> query_mode argv" and "read_from_virtio decode 30 env = Some ([], msgs, w)"
  shows "read_main decode argv env fs
           = Some (fst (fallback fs), fs, msgs @ snd (fallback fs)) \<and>
         map_option (\<lambda>(out, fs', msgs'). (load_cache fs', aggregate fs', key_files fs'))
             (read_main decode argv env fs)
           = Some (load_cache fs, aggregate fs, key_files fs)"
  using read_main_empty[OF assms, of fs] by simp

theorem C5_witness:
  "\<not> query_mode [lit ''qubesdb-config-read.py''] \<and>
   read_from_virtio utf8_decode 30 never_env = Some ([], [Waiting, NotFoundAfter 30], 30) \<and>
   read_main utf8_decode [lit ''qubesdb-config-read.py''] never_env
       \<lparr>aggregate = Some (JsonObject [(lit ''/name'', lit ''work'')]), key_files = Map.empty\<rparr>
     = Some (Returned,
         \<lparr>aggregate = Some (JsonObject [(lit ''/name'', lit ''work'')]), key_files = Map.empty\<rparr>,
         [Waiting, NotFoundAfter 30, UsingCached 1])"
  using C5_empty_read_leaves_cache[OF example_argv_reads never_env_read,
      of "\<lparr>aggregate = Some (JsonObject [(lit ''/name'', lit ''work'')]), key_files = Map.empty\<rparr>"]
    example_argv_reads never_env_read
  by (simp add: fallback_def load_cache_def)

text \<open>
  C1, as stated, fails: with a port that never appears and no cache, \<open>main\<close> prints the
  warning and returns, so the exit status is 0, not a non-zero one.
\<close>

theorem C1_counterexample:
  "read_from_virtio utf8_decode 30 never_env = Some ([], [Waiting, NotFoundAfter 30], 30) \<and>
   load_cache no_cache = Inr [] \<and>
   read_main utf8_decode [lit ''qubesdb-config-read.py''] never_env no_cache
     = Some (Returned, no_cache, [Waiting, NotFoundAfter 30, WarnNoConfig]) \<and>
   exit_status Returned = 0"
proof -
  have l: "load_cache no_cache = Inr []" by (simp add: load_cache_def no_cache_def)
  show ?thesis
    using read_main_empty[OF example_argv_reads never_env_read, of no_cache] never_env_read l
    by (simp add: fallback_def)
qed

text \<open>
  C1, amended. When the read phase yields the empty dictionary and the cache is empty as
  well, \<open>main\<close> prints the warning that no configuration is available and returns: the
  exit status is 0 and no exception leaves \<open>main\<close>. Every run of the read-and-cache mode
  that ends without an uncaught exception has exit status 0, so the exit status does not
  tell this outcome from a fresh read or from a cache fallback.
\<close>

theorem C1_no_configuration_exits_zero:
  assumes "\<not> query_mode argv" and "read_from_virtio decode 30 env = Some ([], msgs, w)"
    and "load_cache fs = Inr []"
  shows "read_main decode argv env fs = Some (Returned, fs, msgs @ [WarnNoConfig]) \<and>
         exit_status Returned = 0 \<and> \<not> aborted Returned \<and>
         (\<forall>decode' env' fs0 out fs' msgs'.
            read_main decode' argv env' fs0 = Some (out, fs', msgs') \<and> \<not> aborted out
              \<longrightarrow> exit_status out = 0)"
proof -
  have "read_main decode argv env fs = Some (Returned, fs, msgs @ [WarnNoConfig])"
    using read_main_empty[OF assms(1,2), of fs] assms(3) by (simp add: fallback_def)
  moreover have "\<forall>decode' env' fs0 out fs' msgs'.
            read_main decode' argv env' fs0 = Some (out, fs', msgs') \<and> \<not> aborted out
              \<longrightarrow> exit_status out = 0"
    using read_main_not_aborted[OF assms(1)] by blast
  ultimately show ?thesis by simp
qed

theorem C1_witness:
  "\<not> query_mode [lit ''qubesdb-config-read.py''] \<and>
   read_from_virtio utf8_decode 30 never_env = Some ([], [Waiting, NotFoundAfter 30], 30) \<and>
   load_cache \<lparr>aggregate = Some (JsonObject []), key_files = Map.empty\<rparr> = Inr [] \<and>
   read_main utf8_decode [lit ''qubesdb-config-read.py''] never_env
       \<lparr>aggregate = Some (JsonObject []), key_files = Map.empty\<rparr>
     = Some (Returned, \<lparr>aggregate = Some (JsonObject []), key_files = Map.empty\<rparr>,
         [Waiting, NotFoundAfter 30, WarnNoConfig])"
proof -
  have l: "load_cache \<lparr>aggregate = Some (JsonObject []), key_files = Map.empty\<rparr> = Inr []"
    by (simp add: load_cache_def)
  from C1_no_configuration_exits_zero[OF example_argv_reads never_env_read l]
    example_argv_reads never_env_read l
  show ?thesis by simp
qed

text \<open>
  C6, as stated, fails. Saving \<open>/a\<close> and then \<open>/b\<close> leaves the per-key file \<open>a\<close> in place
  though the aggregate document no longer has the key \<open>/a\<close>. Saving \<open>/a/b\<close> and \<open>/a_b\<close>
  together writes both to the file \<open>a_b\<close>, which ends up holding the value of \<open>/a_b\<close>, not
  that of \<open>/a/b\<close>. Saving the key \<open>/\<close> rewrites the aggregate document and then raises,
  with no per-key file written.
\<close>

theorem C6_counterexample:
  "save_cache [(lit ''/b'', lit ''2'')] (fst (snd (save_cache [(lit ''/a'', lit ''1'')] no_cache)))
     = (None, \<lparr>aggregate = Some (JsonObject [(lit ''/b'', lit ''2'')]),
               key_files = [lit ''a'' \<mapsto> lit ''1'', lit ''b'' \<mapsto> lit ''2'']\<rparr>,
        [CachedEntries 1]) \<and>
   map_of [(lit ''/b'', lit ''2'')] (lit ''/a'') = None \<and>
   fst (save_cache [(lit ''/a/b'', lit ''1''), (lit ''/a_b'', lit ''2'')] no_cache) = None \<and>
   load_cache (fst (snd (save_cache [(lit ''/a/b'', lit ''1''), (lit ''/a_b'', lit ''2'')] no_cache)))
     = Inr [(lit ''/a/b'', lit ''1''), (lit ''/a_b'', lit ''2'')] \<and>
   key_files (fst (snd (save_cache [(lit ''/a/b'', lit ''1''), (lit ''/a_b'', lit ''2'')] no_cache)))
       (safe_key (lit ''/a/b'')) = Some (lit ''2'') \<and>
   save_cache [(lit ''/'', lit ''x'')] no_cache
     = (Some (IsADirectoryError []),
        \<lparr>aggregate = Some (JsonObject [(lit ''/'', lit ''x'')]), key_files = Map.empty\<rparr>,
        [CachedEntries 1])"
  by (simp add: eval_cache no_cache_def)

text \<open>
  C6, amended. After a \<open>save_cache\<close> that returns, the aggregate document holds exactly the
  saved dictionary, and the per-key files are the earlier ones overwritten by one file
  per file name of the dictionary, holding the value of the last key with that name:
  files of earlier saves under other names stay. For \<open>save_cache\<close> to return, every key's
  file name must be one that can be opened for writing. When the keys of the dictionary
  have different file names, every key of the aggregate document has its per-key file,
  holding exactly that key's value. Saving the same dictionary again changes nothing.
\<close>

theorem C6_save_writes_both_forms:
  assumes "save_cache entries fs = (None, fs', msgs)"
  shows "load_cache fs' = Inr entries \<and>
         key_files fs' = key_files fs ++ per_key_view entries \<and>
         list_all (\<lambda>(k, v). open_for_write (safe_key k) = None) entries \<and>
         (distinct (map (\<lambda>(k, v). safe_key k) entries) \<longrightarrow>
            list_all (\<lambda>(k, v). key_files fs' (safe_key k) = Some v) entries) \<and>
         save_cache entries fs' = (None, fs', msgs)"
proof -
  from assms have w: "fst (write_entries entries (key_files fs)) = None"
    and fs': "fs' = \<lparr>aggregate = Some (JsonObject entries),
                     key_files = snd (write_entries entries (key_files fs))\<rparr>"
    and m: "msgs = [CachedEntries (length entries)]"
    by (auto simp: save_cache_def split: prod.splits)
  have kf: "key_files fs' = key_files fs ++ per_key_view entries"
    using write_entries_files[OF w] by (simp add: fs')
  have ok: "list_all (\<lambda>(k, v). open_for_write (safe_key k) = None) entries"
    using w by (simp add: write_entries_ok)
  have d: "list_all (\<lambda>(k, v). key_files fs' (safe_key k) = Some v) entries"
    if "distinct (map (\<lambda>(k, v). safe_key k) entries)"
    using per_key_view_distinct[OF that] by (auto simp: list_all_iff kf)
  have w2: "fst (write_entries entries (key_files fs')) = None"
    using ok by (simp add: write_entries_ok)
  have "snd (write_entries entries (key_files fs')) = key_files fs'"
    using write_entries_files[OF w2]
    by (simp add: kf map_add_def fun_eq_iff split: option.splits)
  then have again: "save_cache entries fs' = (None, fs', msgs)"
    using w2 by (auto simp: save_cache_def fs' m split: prod.splits)
  have "load_cache fs' = Inr entries" by (simp add: load_cache_def fs')
  with kf ok d again show ?thesis by blast
qed

theorem C6_witness:
  "save_cache [(lit ''/name'', lit ''work''), (lit ''/qubes/ip'', lit ''10.137.0.100'')] no_cache
     = (None,
        \<lparr>aggregate = Some (JsonObject [(lit ''/name'', lit ''work''),
                                       (lit ''/qubes/ip'', lit ''10.137.0.100'')]),
         key_files = [lit ''name'' \<mapsto> lit ''work'', lit ''qubes_ip'' \<mapsto> lit ''10.137.0.100'']\<rparr>,
        [CachedEntries 2]) \<and>
   distinct (map (\<lambda>(k, v). safe_key k)
     [(lit ''/name'', lit ''work''), (lit ''/qubes/ip'', lit ''10.137.0.100'')]) \<and>
   load_cache
       \<lparr>aggregate = Some (JsonObject [(lit ''/name'', lit ''work''),
                                      (lit ''/qubes/ip'', lit ''10.137.0.100'')]),
        key_files = [lit ''name'' \<mapsto> lit ''work'', lit ''qubes_ip'' \<mapsto> lit ''10.137.0.100'']\<rparr>
     = Inr [(lit ''/name'', lit ''work''), (lit ''/qubes/ip'', lit ''10.137.0.100'')]"
proof -
  have s: "save_cache [(lit ''/name'', lit ''work''), (lit ''/qubes/ip'', lit ''10.137.0.100'')]
       no_cache
     = (None,
        \<lparr>aggregate = Some (JsonObject [(lit ''/name'', lit ''work''),
                                       (lit ''/qubes/ip'', lit ''10.137.0.100'')]),
         key_files = [lit ''name'' \<mapsto> lit ''work'', lit ''qubes_ip'' \<mapsto> lit ''10.137.0.100'']\<rparr>,
        [CachedEntries 2])"
    by (simp add: eval_cache no_cache_def)
  have d: "distinct (map (\<lambda>(k, v). safe_key k)
      [(lit ''/name'', lit ''work''), (lit ''/qubes/ip'', lit ''10.137.0.100'')])"
    by (simp add: safe_key_def lit_def)
  from C6_save_writes_both_forms[OF s] s d show ?thesis by blast
qed

section \<open>Claims about the sender\<close>

text \<open>
  C3, as stated, fails: the argument \<open>name=a\<close> and the stream line \<open>name=b\<close> give the
  entry \<open>name\<close>, \<open>b\<close>: the stream is read after the arguments, into the same dictionary.
\<close>

theorem C3_counterexample:
  "arg_pairs ex_argv = [(lit ''name'', lit ''a''), (lit ''type'', lit ''AppVM'')] \<and>
   stream_pairs [lit ''name=b'' @ [10]] = [(lit ''name'', lit ''b'')] \<and>
   sender_entries ex_argv False [lit ''name=b'' @ [10]] Map.empty
     = [(lit ''name'', lit ''b''), (lit ''type'', lit ''AppVM'')]"
  by (simp add: ex_argv_def arg_pairs_def stream_pairs_def sender_entries_def merged_entries_def
      arg_entry_def stdin_entry_def eval_text)

text \<open>
  C3, amended. When the input stream is read (it is not a terminal), the value of a key
  is the one of its last line on the stream, and that of its last \<open>key=value\<close> argument
  only when no line of the stream has the key: entries of the stream override the
  arguments. When the stream is a terminal the arguments alone count. The built-in default
  set is used exactly when the merged result of arguments and stream is empty.
\<close>

theorem C3_stream_overrides_arguments:
  "map_of (merged_entries argv False stdin) k
     = (case map_of (rev (stream_pairs stdin)) k of
          Some v \<Rightarrow> Some v | None \<Rightarrow> map_of (rev (arg_pairs argv)) k) \<and>
   map_of (merged_entries argv True stdin) k = map_of (rev (arg_pairs argv)) k \<and>
   sender_entries argv isatty stdin environ
     = (if merged_entries argv isatty stdin = [] then default_entries environ
        else merged_entries argv isatty stdin)"
  by (simp add: merged_entries_pairs map_of_foldl_dict_set sender_entries_def Let_def map_add_def)

theorem C3_witness:
  "map_of (merged_entries ex_argv False [lit ''name=b'' @ [10]]) (lit ''name'') = Some (lit ''b'') \<and>
   map_of (merged_entries ex_argv False [lit ''name=b'' @ [10]]) (lit ''type'')
     = Some (lit ''AppVM'') \<and>
   merged_entries [lit ''qubesdb-config-inject.py'', lit ''/run/vm.sock''] False [] = [] \<and>
   map_of (sender_entries [lit ''qubesdb-config-inject.py'', lit ''/run/vm.sock''] False []
             Map.empty) (lit ''/type'')
     = Some (lit ''AppVM'')"
  using C3_stream_overrides_arguments[where argv = ex_argv and stdin = "[lit ''name=b'' @ [10]]"
      and k = "lit ''name''" and isatty = True and environ = Map.empty]
    C3_stream_overrides_arguments[where argv = ex_argv and stdin = "[lit ''name=b'' @ [10]]"
      and k = "lit ''type''" and isatty = True and environ = Map.empty]
    C3_stream_overrides_arguments[where
      argv = "[lit ''qubesdb-config-inject.py'', lit ''/run/vm.sock'']" and stdin = "[]"
      and k = "lit ''/type''" and isatty = False and environ = Map.empty]
  by (simp add: ex_argv_def arg_pairs_def stream_pairs_def merged_entries_def default_entries_def
      environ_get_def arg_entry_def stdin_entry_def eval_text)

text \<open>
  An argument with a byte that is not UTF-8 reaches the script as a lone surrogate; the
  payload then cannot be encoded, and the exception leaves \<open>inject\<close> and \<open>main\<close> after the
  connection was made and before anything is sent.
\<close>

lemma inject_main_surrogate_argument:
  "inject_main [lit ''qubesdb-config-inject.py'', lit ''/run/vm.sock'', lit ''name='' @ [56575]]
       True [] Map.empty listening_net
     = (Uncaught UnicodeEncodeError, [])"
proof -
  have s: "sender_entries
      [lit ''qubesdb-config-inject.py'', lit ''/run/vm.sock'', lit ''name='' @ [56575]]
      True [] Map.empty = [(lit ''name'', [56575])]"
    by (simp add: sender_entries_def merged_entries_def arg_entry_def has_eq_def split_eq_def
        lit_def)
  have n: "\<not> encodable (inject_payload [(lit ''name'', [56575])])"
    by (simp add: encodable_payload) (simp add: encodable_def)
  have "inject (lit ''/run/vm.sock'') [(lit ''name'', [56575])] listening_net
      = (Inl UnicodeEncodeError, [], None)"
    using n by (simp add: inject_socket listening_net_def)
  then show ?thesis
    using s by (simp add: inject_main_def merged_entries_def arg_entry_def has_eq_def
        split_eq_def lit_def)
qed

text \<open>
  C7, as stated, fails: \<open>inject\<close> returns the same value, \<open>False\<close>, for a refused
  connection, a missing endpoint and a timeout, and the process exits with status 1 in
  all three cases; the result tells delivered from not delivered, nothing more.
\<close>

theorem C7_counterexample:
  "fst (inject (lit ''/run/vm.sock'') [(lit ''name'', lit ''a'')] refused_net) = Inr False \<and>
   fst (inject (lit ''/run/vm.sock'') [(lit ''name'', lit ''a'')] notfound_net) = Inr False \<and>
   fst (inject (lit ''/run/vm.sock'') [(lit ''name'', lit ''a'')] timeout_net) = Inr False \<and>
   fst (inject_main ex_argv True [] Map.empty refused_net) = SysExit 1 \<and>
   fst (inject_main ex_argv True [] Map.empty notfound_net) = SysExit 1 \<and>
   fst (inject_main ex_argv True [] Map.empty timeout_net) = SysExit 1"
  by (simp add: inject_socket inject_main_def sock_failed_def refused_net_def notfound_net_def
      timeout_net_def ex_argv_def split: prod.split)

text \<open>
  C7, amended. On a host where a socket can be created, the relay can be started and the
  relay's error output is UTF-8, a delivery attempt whose endpoint path and entries hold
  no lone surrogate returns without an exception leaving it, and the process exits with
  status 0 or 1. Whenever \<open>inject\<close> returns, it returns one of two results: \<open>True\<close> with
  the message that gives the number of entries, or \<open>False\<close> with one diagnostic message.
  A refused connection, a missing endpoint and any other OS error of \<open>connect\<close> are
  handled by one handler: for the same exception text they give the same result, \<open>False\<close>
  and the error message with that text. A timeout of \<open>connect\<close> gives \<open>False\<close> and the
  timeout message. With fewer than two arguments the process exits with status 1.
\<close>

theorem C7_inject_reports_boolean:
  "inject p d (net\<lparr>sock_connect := Some (ConnectionRefusedError e)\<rparr>)
     = inject p d (net\<lparr>sock_connect := Some (FileNotFoundError e)\<rparr>) \<and>
   inject p d (net\<lparr>sock_connect := Some (FileNotFoundError e)\<rparr>)
     = inject p d (net\<lparr>sock_connect := Some (OtherOSError e)\<rparr>) \<and>
   (\<not> socat_found net \<and> socket_error net = None \<and>
    sock_connect net = Some (ConnectionRefusedError e)
      \<longrightarrow> inject p d net = (Inr False, [ErrorMsg e], None)) \<and>
   (\<not> socat_found net \<and> socket_error net = None \<and> sock_connect net = Some SocketTimeout
      \<longrightarrow> inject p d net = (Inr False, [TimeoutNotReading p], None)) \<and>
   (fst (inject p d net) = Inr True
      \<longrightarrow> inject p d net = (Inr True, [Injected (length d) p], Some (inject_payload d))) \<and>
   (fst (inject p d net) = Inr False \<longrightarrow> (\<exists>m. inject p d net = (Inr False, [m], None))) \<and>
   (encodable p \<and> list_all (\<lambda>(k, v). encodable k \<and> encodable v) d \<and> host_sound net
      \<longrightarrow> (\<exists>ok. fst (inject p d net) = Inr ok)) \<and>
   (length argv < 2 \<longrightarrow> fst (inject_main argv isatty stdin environ net) = SysExit 1) \<and>
   (2 \<le> length argv \<and> encodable (argv ! 1) \<and>
    list_all (\<lambda>(k, v). encodable k \<and> encodable v) (sender_entries argv isatty stdin environ) \<and>
    host_sound net
      \<longrightarrow> \<not> aborted (fst (inject_main argv isatty stdin environ net)) \<and>
          fst (inject_main argv isatty stdin environ net)
            = SysExit (if fst (inject (argv ! 1) (sender_entries argv isatty stdin environ) net)
                            = Inr True
                       then 0 else 1))"
proof (intro conjI impI)
  show "inject p d (net\<lparr>sock_connect := Some (ConnectionRefusedError e)\<rparr>)
     = inject p d (net\<lparr>sock_connect := Some (FileNotFoundError e)\<rparr>)"
    by (rule inject_same_handler)
  show "inject p d (net\<lparr>sock_connect := Some (FileNotFoundError e)\<rparr>)
     = inject p d (net\<lparr>sock_connect := Some (OtherOSError e)\<rparr>)"
    by (rule inject_same_handler)
next
  assume "\<not> socat_found net \<and> socket_error net = None \<and>
    sock_connect net = Some (ConnectionRefusedError e)"
  then show "inject p d net = (Inr False, [ErrorMsg e], None)"
    by (simp add: inject_socket sock_failed_def)
next
  assume "\<not> socat_found net \<and> socket_error net = None \<and> sock_connect net = Some SocketTimeout"
  then show "inject p d net = (Inr False, [TimeoutNotReading p], None)"
    by (simp add: inject_socket sock_failed_def)
next
  assume "fst (inject p d net) = Inr True"
  then show "inject p d net = (Inr True, [Injected (length d) p], Some (inject_payload d))"
    using inject_shape[of p d net] by auto
next
  assume "fst (inject p d net) = Inr False"
  then show "\<exists>m. inject p d net = (Inr False, [m], None)"
    using inject_shape[of p d net] by auto
next
  assume "encodable p \<and> list_all (\<lambda>(k, v). encodable k \<and> encodable v) d \<and> host_sound net"
  then show "\<exists>ok. fst (inject p d net) = Inr ok" by (simp add: inject_returns)
next
  assume "length argv < 2"
  then show "fst (inject_main argv isatty stdin environ net) = SysExit 1"
    by (simp add: inject_main_def)
next
  assume a: "2 \<le> length argv \<and> encodable (argv ! 1) \<and>
    list_all (\<lambda>(k, v). encodable k \<and> encodable v) (sender_entries argv isatty stdin environ) \<and>
    host_sound net"
  then obtain ok
    where ok: "fst (inject (argv ! 1) (sender_entries argv isatty stdin environ) net) = Inr ok"
    using inject_returns[of "argv ! 1" "sender_entries argv isatty stdin environ" net] by blast
  have l: "\<not> length argv < 2" using a by simp
  obtain res ms sent
    where i: "inject (argv ! 1) (sender_entries argv isatty stdin environ) net = (res, ms, sent)"
    by (cases "inject (argv ! 1) (sender_entries argv isatty stdin environ) net")
  with ok have res: "res = Inr ok" by simp
  have m: "fst (inject_main argv isatty stdin environ net) = SysExit (if ok then 0 else 1)"
    unfolding inject_main_def using l by (simp only: i res if_False prod.case sum.case fst_conv)
  from m show "\<not> aborted (fst (inject_main argv isatty stdin environ net))" by simp
  from m ok show "fst (inject_main argv isatty stdin environ net)
            = SysExit (if fst (inject (argv ! 1) (sender_entries argv isatty stdin environ) net)
                            = Inr True
                       then 0 else 1)"
    by simp
qed

theorem C7_witness:
  "encodable (lit ''/run/vm.sock'') \<and>
   list_all (\<lambda>(k, v). encodable k \<and> encodable v) [(lit ''name'', lit ''a'')] \<and>
   host_sound refused_net \<and> host_sound listening_net \<and>
   inject (lit ''/run/vm.sock'') [(lit ''name'', lit ''a'')] refused_net
     = (Inr False, [ErrorMsg (lit ''[Errno 111] Connection refused'')], None) \<and>
   inject (lit ''/run/vm.sock'') [(lit ''name'', lit ''a'')] listening_net
     = (Inr True, [Injected 1 (lit ''/run/vm.sock'')],
        Some (inject_payload [(lit ''name'', lit ''a'')])) \<and>
   2 \<le> length ex_argv \<and> encodable (ex_argv ! 1) \<and>
   list_all (\<lambda>(k, v). encodable k \<and> encodable v) (sender_entries ex_argv True [] Map.empty) \<and>
   fst (inject_main ex_argv True [] Map.empty listening_net) = SysExit 0 \<and>
   fst (inject_main ex_argv True [] Map.empty refused_net) = SysExit 1"
proof -
  have p: "encodable (lit ''/run/vm.sock'')" by (simp add: encodable_def lit_def)
  have d: "list_all (\<lambda>(k, v). encodable k \<and> encodable v) [(lit ''name'', lit ''a'')]"
    by (simp add: encodable_def lit_def)
  have hr: "host_sound refused_net" by (simp add: host_sound_def refused_net_def)
  have hl: "host_sound listening_net" by (simp add: host_sound_def listening_net_def)
  have cr: "\<not> socat_found refused_net \<and> socket_error refused_net = None \<and>
      sock_connect refused_net = Some (ConnectionRefusedError (lit ''[Errno 111] Connection refused''))"
    by (simp add: refused_net_def)
  have se: "sender_entries ex_argv True [] Map.empty
      = [(lit ''name'', lit ''a''), (lit ''type'', lit ''AppVM'')]"
    by (simp add: ex_argv_def sender_entries_def merged_entries_def arg_entry_def has_eq_def
        split_eq_def lit_def)
  have a1: "ex_argv ! 1 = lit ''/run/vm.sock''" and al: "2 \<le> length ex_argv"
    by (simp_all add: ex_argv_def)
  have ds: "list_all (\<lambda>(k, v). encodable k \<and> encodable v) (sender_entries ex_argv True [] Map.empty)"
    unfolding se by (simp add: encodable_def lit_def)
  have tl: "fst (inject (lit ''/run/vm.sock'') [(lit ''name'', lit ''a'')] listening_net) = Inr True"
    using p d by (simp add: inject_socket listening_net_def encodable_payload report_injected_def)
  have tm: "fst (inject (ex_argv ! 1) (sender_entries ex_argv True [] Map.empty) listening_net)
      = Inr True"
    using p ds unfolding a1
    by (simp add: inject_socket listening_net_def encodable_payload report_injected_def)
  have fm: "fst (inject (ex_argv ! 1) (sender_entries ex_argv True [] Map.empty) refused_net)
      \<noteq> Inr True"
    unfolding a1 by (simp add: inject_socket refused_net_def sock_failed_def)
  note r = C7_inject_reports_boolean[where p = "lit ''/run/vm.sock''"
      and d = "[(lit ''name'', lit ''a'')]" and net = refused_net
      and e = "lit ''[Errno 111] Connection refused''"
      and argv = ex_argv and isatty = True and stdin = "[]" and environ = Map.empty]
  note l = C7_inject_reports_boolean[where p = "lit ''/run/vm.sock''"
      and d = "[(lit ''name'', lit ''a'')]" and net = listening_net and e = "[]"
      and argv = ex_argv and isatty = True and stdin = "[]" and environ = Map.empty]
  have 1: "inject (lit ''/run/vm.sock'') [(lit ''name'', lit ''a'')] refused_net
     = (Inr False, [ErrorMsg (lit ''[Errno 111] Connection refused'')], None)"
    using r cr by blast
  have 2: "inject (lit ''/run/vm.sock'') [(lit ''name'', lit ''a'')] listening_net
     = (Inr True, [Injected 1 (lit ''/run/vm.sock'')],
        Some (inject_payload [(lit ''name'', lit ''a'')]))"
    using l tl by simp
  have a1e: "encodable (ex_argv ! 1)" using p by (simp only: a1)
  have 3: "fst (inject_main ex_argv True [] Map.empty listening_net) = SysExit 0"
    using l al a1e ds hl tm by simp
  have 4: "fst (inject_main ex_argv True [] Map.empty refused_net) = SysExit 1"
    using r al a1e ds hr fm by simp
  from p d hr hl 1 2 al a1e ds 3 4 show ?thesis by blast
qed

end
